theory Spec2Isabelle
  imports Main "HOL-Library.Sublist" "HOL-Library.Product_Lexorder" "HOL-Library.List_Lexorder"
    "HOL-Library.Char_ord"
begin

section \<open>JavaScript strings and values\<close>

text \<open>
  A JavaScript string is modelled as a \<open>string\<close>, one \<open>char\<close> per UTF-16 code unit;
  the model therefore covers texts whose code units are below 256.  Line numbers, rows and
  token counts are natural numbers; the token budget \<open>maxTokens\<close> is an integer, since the
  code compares it with zero and the callers may pass a negative one.

  A thrown exception is a value: the class of the error object and its message.
\<close>

datatype error_class =
  PlainError | ChunkingError | FileSystemError | ParsingError | TokenProcessingError | DatabaseError

datatype thrown = Thrown (error_class: error_class) (message: string)

datatype ErrorType = file_system | parsing | token_processing | database

text \<open>\<open>String.prototype.trim\<close> removes white space and line terminators at both ends;
  among the code units below 256 these are TAB, LF, VT, FF, CR, SPACE and NBSP.\<close>

definition is_ws :: "char \<Rightarrow> bool" where
  "is_ws c = (c = CHR 0x09 \<or> c = CHR 0x0A \<or> c = CHR 0x0B \<or> c = CHR 0x0C \<or> c = CHR 0x0D
              \<or> c = CHR 0x20 \<or> c = CHR 0xA0)"

definition trim :: "string \<Rightarrow> string" where
  "trim s = rev (dropWhile is_ws (rev (dropWhile is_ws s)))"

text \<open>\<open>text.split(d)\<close> for a separator of one code unit: never the empty list.\<close>

fun split_on :: "char \<Rightarrow> string \<Rightarrow> string list" where
  "split_on d [] = [[]]"
| "split_on d (c # cs) =
     (if c = d then [] # split_on d cs
      else (c # hd (split_on d cs)) # tl (split_on d cs))"

text \<open>\<open>parts.join(sep)\<close>.\<close>

fun join :: "string \<Rightarrow> string list \<Rightarrow> string" where
  "join sep [] = []"
| "join sep [x] = x"
| "join sep (x # y # ys) = x @ sep @ join sep (y # ys)"

text \<open>\<open>xs.slice(b, e)\<close> for \<open>0 \<le> b\<close> and \<open>0 \<le> e\<close>; both ends are clamped to the length.\<close>

definition slice :: "nat \<Rightarrow> nat \<Rightarrow> 'a list \<Rightarrow> 'a list" where
  "slice b e xs = take (e - b) (drop b xs)"

section \<open>tokenizer.ts\<close>

text \<open>
  The tiktoken encoder is external.  It is a function from a text to the number of tokens
  of its encoding, or to the message of the error it throws.
\<close>

type_synonym encoder = "string \<Rightarrow> string + nat"

text \<open>
  \<open>SUPPORTED_MODELS\<close> is an object literal.  A property read \<open>SUPPORTED_MODELS[modelName]\<close>
  finds an own property, or a property inherited from \<open>Object.prototype\<close>, or is
  \<open>undefined\<close>.  The inherited values are functions (an object for \<open>__proto__\<close>), all truthy.
\<close>

datatype jsval = JSUndefined | JSString string | JSInherited string

definition SUPPORTED_MODELS :: "(string \<times> string) list" where
  "SUPPORTED_MODELS =
     [(''text-embedding-3-large'', ''cl100k_base''),
      (''text-embedding-3-small'', ''cl100k_base''),
      (''text-embedding-ada-002'', ''cl100k_base''),
      (''gpt-4'', ''cl100k_base''),
      (''gpt-3.5-turbo'', ''cl100k_base'')]"

definition object_prototype_keys :: "string list" where
  "object_prototype_keys =
     [''constructor'', ''toString'', ''toLocaleString'', ''valueOf'', ''hasOwnProperty'',
      ''isPrototypeOf'', ''propertyIsEnumerable'', ''__proto__'', ''__defineGetter__'',
      ''__defineSetter__'', ''__lookupGetter__'', ''__lookupSetter__'']"

definition object_get :: "(string \<times> string) list \<Rightarrow> string \<Rightarrow> jsval" where
  "object_get obj key =
     (case map_of obj key of
        Some v \<Rightarrow> JSString v
      | None \<Rightarrow> if key \<in> set object_prototype_keys then JSInherited key else JSUndefined)"

text \<open>\<open>v || 'cl100k_base'\<close>: the right operand when \<open>v\<close> is falsy (\<open>undefined\<close>, the
  empty string).\<close>

definition encodingName :: "string \<Rightarrow> jsval" where
  "encodingName modelName =
     (case object_get SUPPORTED_MODELS modelName of
        JSUndefined \<Rightarrow> JSString ''cl100k_base''
      | JSString v \<Rightarrow> if v = [] then JSString ''cl100k_base'' else JSString v
      | JSInherited k \<Rightarrow> JSInherited k)"

record Tokenizer =
  encoding :: encoder
  modelName :: string

text \<open>The constructor; \<open>get_encoding\<close> is tiktoken's, and throws or returns an encoder.\<close>

definition new_Tokenizer :: "(jsval \<Rightarrow> string + encoder) \<Rightarrow> string \<Rightarrow> thrown + Tokenizer" where
  "new_Tokenizer get_encoding mn =
     (case get_encoding (encodingName mn) of
        Inl msg \<Rightarrow>
          Inl (Thrown TokenProcessingError
                 (''Failed to initialize tokenizer for model '' @ mn @ '': '' @ msg))
      | Inr enc \<Rightarrow> Inr \<lparr>encoding = enc, modelName = mn\<rparr>)"

definition createTokenizer :: "(jsval \<Rightarrow> string + encoder) \<Rightarrow> string \<Rightarrow> thrown + Tokenizer" where
  "createTokenizer get_encoding mn = new_Tokenizer get_encoding mn"

definition countTokens :: "Tokenizer \<Rightarrow> string \<Rightarrow> thrown + nat" where
  "countTokens t text =
     (if text = [] \<or> length (trim text) = 0 then Inr 0
      else (case encoding t text of
              Inl msg \<Rightarrow> Inl (Thrown TokenProcessingError (''Failed to count tokens: '' @ msg))
            | Inr n \<Rightarrow> Inr n))"

definition exceedsLimit :: "Tokenizer \<Rightarrow> string \<Rightarrow> int \<Rightarrow> thrown + bool" where
  "exceedsLimit t text maxTokens =
     (case countTokens t text of Inl e \<Rightarrow> Inl e | Inr n \<Rightarrow> Inr (int n > maxTokens))"

section \<open>split.ts\<close>

record CodeSplit =
  content :: string
  startLine :: nat
  endLine :: nat
  tokenCount :: nat

definition delimiters :: "char list" where
  "delimiters = [CHR '' '', CHR '','', CHR '';'', CHR ''('', CHR '')'', CHR ''{'', CHR ''}'',
                 CHR ''['', CHR '']'']"

text \<open>The inner loop of \<open>findBestSplit\<close>: \<open>i\<close> is the index of the first part of \<open>parts\<close>
  still to be tried; \<open>break\<close> returns the part accumulated so far.\<close>

fun findBestSplit_parts ::
  "Tokenizer \<Rightarrow> int \<Rightarrow> char \<Rightarrow> nat \<Rightarrow> string list \<Rightarrow> string \<Rightarrow> thrown + string" where
  "findBestSplit_parts t maxTokens delimiter i [] currentPart = Inr currentPart"
| "findBestSplit_parts t maxTokens delimiter i (p # ps) currentPart =
     (let testPart = (if i = 0 then p else currentPart @ [delimiter] @ p) in
      case countTokens t testPart of
        Inl e \<Rightarrow> Inl e
      | Inr n \<Rightarrow>
          if int n \<le> maxTokens
          then findBestSplit_parts t maxTokens delimiter (i + 1) ps testPart
          else Inr currentPart)"

fun findBestSplit_delims ::
  "string \<Rightarrow> int \<Rightarrow> Tokenizer \<Rightarrow> char list \<Rightarrow> string \<Rightarrow> thrown + string" where
  "findBestSplit_delims text maxTokens t [] bestSplit = Inr bestSplit"
| "findBestSplit_delims text maxTokens t (delimiter # ds) bestSplit =
     (case findBestSplit_parts t maxTokens delimiter 0 (split_on delimiter text) [] of
        Inl e \<Rightarrow> Inl e
      | Inr currentPart \<Rightarrow>
          findBestSplit_delims text maxTokens t ds
            (if length currentPart > length bestSplit then currentPart else bestSplit))"

definition findBestSplit :: "string \<Rightarrow> int \<Rightarrow> Tokenizer \<Rightarrow> char list \<Rightarrow> thrown + string" where
  "findBestSplit text maxTokens t ds = findBestSplit_delims text maxTokens t ds []"

text \<open>The binary search of \<open>findCharacterSplit\<close>; \<open>right\<close> may become \<open>-1\<close>.\<close>

function findCharacterSplit_loop ::
  "string \<Rightarrow> int \<Rightarrow> Tokenizer \<Rightarrow> int \<Rightarrow> int \<Rightarrow> nat \<Rightarrow> thrown + nat" where
  "findCharacterSplit_loop text maxTokens t left right bestLength =
     (if left \<le> right then
        (let mid = (left + right) div 2 in
         case countTokens t (take (nat mid) text) of
           Inl e \<Rightarrow> Inl e
         | Inr n \<Rightarrow>
             if int n \<le> maxTokens
             then findCharacterSplit_loop text maxTokens t (mid + 1) right (nat mid)
             else findCharacterSplit_loop text maxTokens t left (mid - 1) bestLength)
      else Inr bestLength)"
  by pat_completeness auto
termination
  by (relation "measure (\<lambda>(text, maxTokens, t, left, right, bestLength). nat (right - left + 1))")
     auto

definition findCharacterSplit :: "string \<Rightarrow> int \<Rightarrow> Tokenizer \<Rightarrow> thrown + string" where
  "findCharacterSplit text maxTokens t =
     (case findCharacterSplit_loop text maxTokens t 0 (int (length text)) 0 of
        Inl e \<Rightarrow> Inl e
      | Inr bestLength \<Rightarrow> Inr (take bestLength text))"

text \<open>The part of one iteration of \<open>splitLongLine\<close> that chooses \<open>bestSplit\<close>.\<close>

definition chooseSplit :: "string \<Rightarrow> int \<Rightarrow> Tokenizer \<Rightarrow> thrown + string" where
  "chooseSplit remainingText maxTokens t =
     (case findBestSplit remainingText maxTokens t delimiters of
        Inl e \<Rightarrow> Inl e
      | Inr bestSplit \<Rightarrow>
          (case (if length bestSplit = 0 then findCharacterSplit remainingText maxTokens t
                 else Inr bestSplit) of
             Inl e \<Rightarrow> Inl e
           | Inr bestSplit' \<Rightarrow>
               Inr (if length bestSplit' = 0 then take 1 remainingText else bestSplit')))"

function splitLongLine_loop ::
  "nat \<Rightarrow> int \<Rightarrow> Tokenizer \<Rightarrow> string \<Rightarrow> CodeSplit list \<Rightarrow> thrown + CodeSplit list" where
  "splitLongLine_loop lineNumber maxTokens t remainingText splits =
     (if length remainingText > 0 then
        (case chooseSplit remainingText maxTokens t of
           Inl e \<Rightarrow> Inl e
         | Inr bestSplit \<Rightarrow>
             (case countTokens t bestSplit of
                Inl e \<Rightarrow> Inl e
              | Inr n \<Rightarrow>
                  splitLongLine_loop lineNumber maxTokens t
                    (drop (length bestSplit) remainingText)
                    (splits @ [\<lparr>content = bestSplit, startLine = lineNumber,
                                endLine = lineNumber, tokenCount = n\<rparr>])))
      else Inr splits)"
  by pat_completeness auto

lemma chooseSplit_nonempty:
  "chooseSplit remainingText maxTokens t = Inr bestSplit \<Longrightarrow> remainingText \<noteq> [] \<Longrightarrow> bestSplit \<noteq> []"
  by (cases remainingText)
     (auto simp: chooseSplit_def split: sum.splits if_splits)

termination splitLongLine_loop
proof (relation "measure (\<lambda>(lineNumber, maxTokens, t, remainingText, splits). length remainingText)")
  show "wf (measure (\<lambda>(lineNumber, maxTokens, t, remainingText, splits). length remainingText))"
    by simp
next
  fix lineNumber :: nat and maxTokens :: int and t :: Tokenizer and remainingText :: string
    and splits :: "CodeSplit list" and bestSplit :: string and n :: nat
  assume "0 < length remainingText" and "chooseSplit remainingText maxTokens t = Inr bestSplit"
  then have "bestSplit \<noteq> []"
    using chooseSplit_nonempty by fastforce
  with \<open>0 < length remainingText\<close>
  show "((lineNumber, maxTokens, t, drop (length bestSplit) remainingText,
          splits @ [\<lparr>content = bestSplit, startLine = lineNumber, endLine = lineNumber,
                     tokenCount = n\<rparr>]),
         (lineNumber, maxTokens, t, remainingText, splits))
        \<in> measure (\<lambda>(lineNumber, maxTokens, t, remainingText, splits). length remainingText)"
    by (cases bestSplit) auto
qed

definition splitLongLine :: "string \<Rightarrow> nat \<Rightarrow> int \<Rightarrow> Tokenizer \<Rightarrow> thrown + CodeSplit list" where
  "splitLongLine line lineNumber maxTokens t = splitLongLine_loop lineNumber maxTokens t line []"

text \<open>\<open>flushChunk\<close> returns the extended list of splits.\<close>

definition flushChunk ::
  "CodeSplit list \<Rightarrow> string list \<Rightarrow> nat \<Rightarrow> nat \<Rightarrow> nat \<Rightarrow> CodeSplit list" where
  "flushChunk chunks lines sl el tc =
     (if length lines = 0 then chunks
      else (let c = join ''\<newline>'' lines in
            if length (trim c) > 0
            then chunks @ [\<lparr>content = c, startLine = sl, endLine = el, tokenCount = tc\<rparr>]
            else chunks))"

text \<open>
  The loop of \<open>splitCode\<close> over the lines still to be read; \<open>lineNumber\<close> is
  \<open>startLine + i\<close>.  It returns the splits and the pending buffer with its first line
  number and its accumulated token count.
\<close>

fun splitCode_loop ::
  "Tokenizer \<Rightarrow> int \<Rightarrow> string list \<Rightarrow> nat \<Rightarrow> CodeSplit list \<Rightarrow> string list \<Rightarrow> nat \<Rightarrow> nat
     \<Rightarrow> thrown + (CodeSplit list \<times> string list \<times> nat \<times> nat)" where
  "splitCode_loop t maxTokens [] lineNumber splits currentChunk currentStartLine currentTokenCount =
     Inr (splits, currentChunk, currentStartLine, currentTokenCount)"
| "splitCode_loop t maxTokens (line # rest) lineNumber splits currentChunk currentStartLine
       currentTokenCount =
     (if length (trim line) = 0 then
        splitCode_loop t maxTokens rest (lineNumber + 1) splits (currentChunk @ [line])
          currentStartLine currentTokenCount
      else
        (case countTokens t line of
           Inl e \<Rightarrow> Inl e
         | Inr lineTokens \<Rightarrow>
             if int lineTokens > maxTokens then
               (case splitLongLine line lineNumber maxTokens t of
                  Inl e \<Rightarrow> Inl e
                | Inr lineSplits \<Rightarrow>
                    if length currentChunk > 0 then
                      splitCode_loop t maxTokens rest (lineNumber + 1)
                        (flushChunk splits currentChunk currentStartLine (lineNumber - 1)
                           currentTokenCount @ lineSplits)
                        [] (lineNumber + 1) 0
                    else
                      splitCode_loop t maxTokens rest (lineNumber + 1) (splits @ lineSplits)
                        currentChunk (lineNumber + 1) currentTokenCount)
             else
               (let potentialTokenCount = currentTokenCount + lineTokens in
                if int potentialTokenCount > maxTokens \<and> length currentChunk > 0 then
                  splitCode_loop t maxTokens rest (lineNumber + 1)
                    (flushChunk splits currentChunk currentStartLine (lineNumber - 1)
                       currentTokenCount)
                    [line] lineNumber lineTokens
                else
                  splitCode_loop t maxTokens rest (lineNumber + 1) splits (currentChunk @ [line])
                    currentStartLine potentialTokenCount)))"

record SplitOptions =
  sourceCode :: string
  so_startLine :: nat
  so_maxTokens :: int
  tokenizer :: Tokenizer

definition splitCode :: "SplitOptions \<Rightarrow> thrown + CodeSplit list" where
  "splitCode options =
     (if sourceCode options = [] \<or> length (trim (sourceCode options)) = 0 then Inr []
      else if so_maxTokens options \<le> 0
      then Inl (Thrown TokenProcessingError ''maxTokens must be greater than 0'')
      else
        (let lines = split_on CHR ''\<newline>'' (sourceCode options) in
         case splitCode_loop (tokenizer options) (so_maxTokens options) lines
                (so_startLine options) [] [] (so_startLine options) 0 of
           Inl e \<Rightarrow> Inl e
         | Inr (splits, currentChunk, currentStartLine, currentTokenCount) \<Rightarrow>
             if length currentChunk > 0
             then Inr (flushChunk splits currentChunk currentStartLine
                         (so_startLine options + length lines - 1) currentTokenCount)
             else Inr splits))"

section \<open>chunk.ts\<close>

datatype TSLanguage = typescript | tsx

record ChunkConfig =
  language :: TSLanguage
  name :: string
  wantedNodes :: "string set"

definition tsConfig :: ChunkConfig where
  "tsConfig =
     \<lparr>language = typescript, name = ''typescript'',
      wantedNodes = set [''function_declaration'', ''method_definition'', ''class_declaration'',
        ''interface_declaration'', ''type_alias_declaration'', ''enum_declaration'',
        ''namespace_declaration'', ''module_declaration'', ''variable_declaration'',
        ''lexical_declaration'', ''import_statement'', ''export_statement'']\<rparr>"

definition tsxConfig :: ChunkConfig where
  "tsxConfig = \<lparr>language = tsx, name = name tsConfig, wantedNodes = wantedNodes tsConfig\<rparr>"

text \<open>\<open>LANG_CONFIG[fileExtension]\<close>.  The key is a result of \<open>path.extname\<close>, which is
  empty or begins with a dot, so no inherited property is ever found.\<close>

definition LANG_CONFIG :: "string \<Rightarrow> ChunkConfig option" where
  "LANG_CONFIG ext =
     (if ext = ''.ts'' then Some tsConfig else if ext = ''.tsx'' then Some tsxConfig else None)"

section \<open>chunk-file.ts\<close>

record Position =
  row :: nat
  column :: nat

text \<open>A node of the tree-sitter parse tree.\<close>

datatype SyntaxNode =
  SyntaxNode (sn_type: string) (sn_startPosition: Position) (sn_endPosition: Position)
    (sn_text: string) (sn_children: "SyntaxNode list")

record ASTNode =
  type :: string
  startPosition :: Position
  endPosition :: Position
  node_text :: string
  symbolName :: "string option"
  symbolType :: "string option"
  parentLineage :: "string list option"

datatype ChunkType = ast_node | gap | split

record ChunkMetadata =
  filePath :: string
  md_language :: string
  md_symbolName :: "string option"
  md_symbolType :: "string option"
  md_parentLineage :: "string list option"
  chunkType :: ChunkType
  md_startLine :: nat
  md_endLine :: nat
  md_imports :: "string list option"
  md_exports :: "string list option"

record FileChunk = CodeSplit +
  metadata :: ChunkMetadata

text \<open>\<open>children.find(child => child.type === k)?.text\<close>.\<close>

definition child_text :: "SyntaxNode list \<Rightarrow> string \<Rightarrow> string option" where
  "child_text cs k = map_option sn_text (find (\<lambda>child. sn_type child = k) cs)"

function extractSymbolName :: "SyntaxNode \<Rightarrow> string option" where
  "extractSymbolName node =
     (if sn_type node = ''function_declaration'' then child_text (sn_children node) ''identifier''
      else if sn_type node = ''class_declaration'' then
        child_text (sn_children node) ''type_identifier''
      else if sn_type node = ''interface_declaration'' then
        child_text (sn_children node) ''type_identifier''
      else if sn_type node = ''type_alias_declaration'' then
        child_text (sn_children node) ''type_identifier''
      else if sn_type node = ''method_definition'' then
        child_text (sn_children node) ''property_identifier''
      else if sn_type node = ''arrow_function'' then None
      else if sn_type node = ''variable_declaration'' \<or> sn_type node = ''lexical_declaration'' then
        (case find (\<lambda>child. sn_type child = ''variable_declarator'') (sn_children node) of
           Some declarator \<Rightarrow> child_text (sn_children declarator) ''identifier''
         | None \<Rightarrow> None)
      else if sn_type node = ''export_statement'' then
        (case find (\<lambda>child. sn_type child = ''export_clause''
                      \<or> sn_type child = ''function_declaration''
                      \<or> sn_type child = ''class_declaration''
                      \<or> sn_type child = ''interface_declaration'') (sn_children node) of
           Some exportClause \<Rightarrow>
             if sn_type exportClause \<noteq> ''export_clause'' then extractSymbolName exportClause
             else None
         | None \<Rightarrow> None)
      else if sn_type node = ''import_statement'' then
        (case find (\<lambda>child. sn_type child = ''import_clause'') (sn_children node) of
           Some importClause \<Rightarrow>
             (case find (\<lambda>child. sn_type child = ''identifier'') (sn_children importClause) of
                Some defaultImport \<Rightarrow> Some (sn_text defaultImport)
              | None \<Rightarrow>
                  (case find (\<lambda>child. sn_type child = ''named_imports'')
                          (sn_children importClause) of
                     Some namedImports \<Rightarrow>
                       (case find (\<lambda>child. sn_type child = ''import_specifier'')
                               (sn_children namedImports) of
                          Some firstSpecifier \<Rightarrow>
                            child_text (sn_children firstSpecifier) ''identifier''
                        | None \<Rightarrow> None)
                   | None \<Rightarrow> None))
         | None \<Rightarrow> None)
      else None)"
  by pat_completeness auto

lemma child_smaller: "c \<in> set (sn_children node) \<Longrightarrow> size c < size node"
proof -
  assume "c \<in> set (sn_children node)"
  then have "size c \<le> size_list size (sn_children node)"
    by (simp add: size_list_estimation')
  then show ?thesis
    by (cases node) simp
qed

lemma find_child_smaller:
  "find P (sn_children node) = Some c \<Longrightarrow> size c < size node"
  by (auto simp: find_Some_iff intro: child_smaller)

termination extractSymbolName
  by (relation "measure size") (auto dest: find_child_smaller)

declare extractSymbolName.simps [simp del]

definition extractSymbolType :: "SyntaxNode \<Rightarrow> string" where
  "extractSymbolType node =
     (if sn_type node = ''function_declaration'' then ''function''
      else if sn_type node = ''class_declaration'' then ''class''
      else if sn_type node = ''interface_declaration'' then ''interface''
      else if sn_type node = ''type_alias_declaration'' then ''type_alias''
      else if sn_type node = ''method_definition'' then ''method''
      else if sn_type node = ''arrow_function'' then ''arrow_function''
      else if sn_type node = ''variable_declaration'' \<or> sn_type node = ''lexical_declaration''
      then ''variable''
      else if sn_type node = ''export_statement'' then ''export''
      else if sn_type node = ''import_statement'' then ''import''
      else sn_type node)"

definition isContainerNode :: "string \<Rightarrow> bool" where
  "isContainerNode nodeType =
     (nodeType \<in> set [''class_declaration'', ''interface_declaration'',
        ''namespace_declaration'', ''module_declaration'', ''enum_declaration''])"

text \<open>The comparator of the three sorts of nodes: by row, then by column.  The sort of
  JavaScript arrays is stable, as \<open>sort_key\<close> is.\<close>

definition sortNodes :: "ASTNode list \<Rightarrow> ASTNode list" where
  "sortNodes ns = sort_key (\<lambda>n. (row (startPosition n), column (startPosition n))) ns"

text \<open>\<open>collectTreeNodesWithSymbols\<close>, with the loop over the children of the node as a
  second function.\<close>

fun collectTreeNodesWithSymbols ::
    "SyntaxNode \<Rightarrow> string set \<Rightarrow> string list \<Rightarrow> ASTNode list"
  and collect_children :: "SyntaxNode list \<Rightarrow> string set \<Rightarrow> string list \<Rightarrow> ASTNode list" where
  "collectTreeNodesWithSymbols (SyntaxNode ty sp ep tx cs) wanted lineage =
     (let node = SyntaxNode ty sp ep tx cs;
          here =
            (if sn_type node \<in> wanted
             then [\<lparr>type = sn_type node,
                    startPosition = sn_startPosition node,
                    endPosition = sn_endPosition node,
                    node_text = sn_text node,
                    symbolName = extractSymbolName node,
                    symbolType = Some (extractSymbolType node),
                    parentLineage = (if length lineage > 0 then Some lineage else None)\<rparr>]
             else []);
          currentSymbolName = extractSymbolName node;
          newParentLineage =
            (case currentSymbolName of
               Some n \<Rightarrow> if n \<noteq> [] \<and> isContainerNode (sn_type node) then lineage @ [n]
                         else lineage
             | None \<Rightarrow> lineage)
      in sortNodes (here @ collect_children cs wanted newParentLineage))"
| "collect_children [] wanted lineage = []"
| "collect_children (child # rest) wanted lineage =
     collectTreeNodesWithSymbols child wanted lineage @ collect_children rest wanted lineage"

text \<open>
  \<open>extractImportsExports\<close> scans the text with regular expressions for metadata only.  The
  scan is a parameter \<open>ix\<close> of the functions below: it takes the content and the node type
  and returns the lists of imports and of exports.
\<close>

type_synonym scanner = "string \<Rightarrow> string \<Rightarrow> string list \<times> string list"

definition nonempty :: "string list \<Rightarrow> string list option" where
  "nonempty xs = (if length xs > 0 then Some xs else None)"

definition split_chunks :: "ChunkMetadata \<Rightarrow> CodeSplit list \<Rightarrow> FileChunk list" where
  "split_chunks md splits =
     map (\<lambda>s. \<lparr>content = content s, startLine = startLine s, endLine = endLine s,
                tokenCount = tokenCount s,
                metadata = md\<lparr>chunkType := split, md_startLine := startLine s,
                               md_endLine := endLine s\<rparr>\<rparr>) splits"

text \<open>The metadata of the chunk of a whole node and of a whole gap; a chunk of a split
  has the same with the chunk type and the lines replaced.\<close>

definition nodeMetadata :: "scanner \<Rightarrow> ASTNode \<Rightarrow> string \<Rightarrow> string \<Rightarrow> ChunkMetadata" where
  "nodeMetadata ix node fp lang =
     (let (imps, exps) = ix (node_text node) (type node)
      in \<lparr>filePath = fp, md_language = lang, md_symbolName = symbolName node,
          md_symbolType = symbolType node, md_parentLineage = parentLineage node,
          chunkType = ast_node, md_startLine = row (startPosition node) + 1,
          md_endLine = row (endPosition node) + 1,
          md_imports = nonempty imps, md_exports = nonempty exps\<rparr>)"

definition gapMetadata :: "scanner \<Rightarrow> string \<Rightarrow> nat \<Rightarrow> nat \<Rightarrow> string \<Rightarrow> string \<Rightarrow> ChunkMetadata" where
  "gapMetadata ix gapContent sl el fp lang =
     (let (imps, exps) = ix gapContent ''gap''
      in \<lparr>filePath = fp, md_language = lang, md_symbolName = None,
          md_symbolType = None, md_parentLineage = None,
          chunkType = gap, md_startLine = sl, md_endLine = el,
          md_imports = nonempty imps, md_exports = nonempty exps\<rparr>)"

definition processASTNodeContent ::
  "scanner \<Rightarrow> ASTNode \<Rightarrow> string \<Rightarrow> string \<Rightarrow> int \<Rightarrow> Tokenizer \<Rightarrow> thrown + FileChunk list" where
  "processASTNodeContent ix node fp lang maxTokens t =
     (let nodeStartLine = row (startPosition node) + 1;
          nodeEndLine = row (endPosition node) + 1
      in case countTokens t (node_text node) of
           Inl e \<Rightarrow> Inl e
         | Inr n \<Rightarrow>
             if int n \<le> maxTokens
             then Inr [\<lparr>content = node_text node, startLine = nodeStartLine,
                        endLine = nodeEndLine, tokenCount = n,
                        metadata = nodeMetadata ix node fp lang\<rparr>]
             else (case splitCode \<lparr>sourceCode = node_text node, so_startLine = nodeStartLine,
                                    so_maxTokens = maxTokens, tokenizer = t\<rparr> of
                     Inl e \<Rightarrow> Inl e
                   | Inr splits \<Rightarrow> Inr (split_chunks (nodeMetadata ix node fp lang) splits)))"

definition processGapContent ::
  "scanner \<Rightarrow> string \<Rightarrow> nat \<Rightarrow> nat \<Rightarrow> string \<Rightarrow> string \<Rightarrow> int \<Rightarrow> Tokenizer
     \<Rightarrow> thrown + FileChunk list" where
  "processGapContent ix gapContent sl el fp lang maxTokens t =
     (case countTokens t gapContent of
        Inl e \<Rightarrow> Inl e
      | Inr n \<Rightarrow>
          if int n \<le> maxTokens
          then Inr [\<lparr>content = gapContent, startLine = sl, endLine = el, tokenCount = n,
                     metadata = gapMetadata ix gapContent sl el fp lang\<rparr>]
          else (case splitCode \<lparr>sourceCode = gapContent, so_startLine = sl,
                                 so_maxTokens = maxTokens, tokenizer = t\<rparr> of
                  Inl e \<Rightarrow> Inl e
                | Inr splits \<Rightarrow> Inr (split_chunks (gapMetadata ix gapContent sl el fp lang) splits)))"

text \<open>The loop of \<open>processFileWithCursor\<close> over the sorted nodes; it returns the chunks and
  the cursor.\<close>

fun processFileWithCursor_loop ::
  "scanner \<Rightarrow> string list \<Rightarrow> string \<Rightarrow> string \<Rightarrow> int \<Rightarrow> Tokenizer \<Rightarrow> ASTNode list
     \<Rightarrow> FileChunk list \<Rightarrow> nat \<Rightarrow> thrown + (FileChunk list \<times> nat)" where
  "processFileWithCursor_loop ix sourceLines fp lang maxTokens t [] chunks cursor =
     Inr (chunks, cursor)"
| "processFileWithCursor_loop ix sourceLines fp lang maxTokens t (node # rest) chunks cursor =
     (let nodeStartLine = row (startPosition node) + 1;
          nodeEndLine = row (endPosition node) + 1;
          gapEndLine = nodeStartLine - 1;
          gapContent = join ''\<newline>'' (slice (cursor - 1) gapEndLine sourceLines)
      in case (if cursor < nodeStartLine \<and> length (trim gapContent) > 0
               then processGapContent ix gapContent cursor gapEndLine fp lang maxTokens t
               else Inr []) of
           Inl e \<Rightarrow> Inl e
         | Inr gapChunks \<Rightarrow>
             (case processASTNodeContent ix node fp lang maxTokens t of
                Inl e \<Rightarrow> Inl e
              | Inr nodeChunks \<Rightarrow>
                  processFileWithCursor_loop ix sourceLines fp lang maxTokens t rest
                    (chunks @ gapChunks @ nodeChunks) (nodeEndLine + 1)))"

definition processFileWithCursor ::
  "scanner \<Rightarrow> string \<Rightarrow> ASTNode list \<Rightarrow> string \<Rightarrow> string \<Rightarrow> int \<Rightarrow> Tokenizer
     \<Rightarrow> thrown + FileChunk list" where
  "processFileWithCursor ix fileContent astNodes fp lang maxTokens t =
     (let sourceLines = split_on CHR ''\<newline>'' fileContent;
          sortedNodes = sortNodes astNodes
      in case processFileWithCursor_loop ix sourceLines fp lang maxTokens t sortedNodes [] 1 of
           Inl e \<Rightarrow> Inl e
         | Inr (chunks, cursor) \<Rightarrow>
             (let trailingContent = join ''\<newline>'' (drop (cursor - 1) sourceLines)
              in case (if cursor \<le> length sourceLines \<and> length (trim trailingContent) > 0
                       then processGapContent ix trailingContent cursor (length sourceLines)
                              fp lang maxTokens t
                       else Inr []) of
                   Inl e \<Rightarrow> Inl e
                 | Inr trailingChunks \<Rightarrow> Inr (sort_key startLine (chunks @ trailingChunks))))"

text \<open>
  The collaborators of \<open>chunkFile\<close> and of the batch run: Node's \<open>path.extname\<close> and
  \<open>fs.readFileSync\<close>, the tree-sitter parser (the root node of the tree, or the message of
  the error thrown), tiktoken's \<open>get_encoding\<close>, the import/export scan and the repository
  scanner.  \<open>tokenizer.dispose()\<close> frees a resource and is not modelled.
\<close>

record env =
  extname :: "string \<Rightarrow> string"
  readFileSync :: "string \<Rightarrow> string + string"
  parse :: "TSLanguage \<Rightarrow> string \<Rightarrow> string + SyntaxNode"
  get_encoding :: "jsval \<Rightarrow> string + encoder"
  extractImportsExports :: scanner
  scanRepository :: "string \<Rightarrow> string list \<Rightarrow> string list \<Rightarrow> string + string list"

record ChunkFileOptions =
  co_filePath :: string
  co_maxTokens :: int
  co_modelName :: string

text \<open>The body of the outer \<open>try\<close> of \<open>chunkFile\<close>.\<close>

definition chunkFile_try :: "env \<Rightarrow> ChunkFileOptions \<Rightarrow> thrown + FileChunk list" where
  "chunkFile_try env options =
     (let fp = co_filePath options; fileExtension = extname env fp in
      case LANG_CONFIG fileExtension of
        None \<Rightarrow> Inr []
      | Some langConfig \<Rightarrow>
          (case readFileSync env fp of
             Inl msg \<Rightarrow> Inl (Thrown FileSystemError (''Failed to read file '' @ fp @ '': '' @ msg))
           | Inr fileContent \<Rightarrow>
               (case parse env (language langConfig) fileContent of
                  Inl msg \<Rightarrow> Inl (Thrown ParsingError (''Failed to parse '' @ fp @ '': '' @ msg))
                | Inr rootNode \<Rightarrow>
                    (case createTokenizer (get_encoding env) (co_modelName options) of
                       Inl e \<Rightarrow> Inl e
                     | Inr t \<Rightarrow>
                         processFileWithCursor (extractImportsExports env) fileContent
                           (collectTreeNodesWithSymbols rootNode (wantedNodes langConfig) [])
                           fp (name langConfig) (co_maxTokens options) t))))"

text \<open>The \<open>catch\<close> of \<open>chunkFile\<close>: a \<open>FileSystemError\<close> or a \<open>ParsingError\<close> is thrown
  again, anything else is wrapped in a new \<open>ParsingError\<close>.\<close>

definition chunkFile :: "env \<Rightarrow> ChunkFileOptions \<Rightarrow> thrown + FileChunk list" where
  "chunkFile env options =
     (case chunkFile_try env options of
        Inr chunks \<Rightarrow> Inr chunks
      | Inl e \<Rightarrow>
          if error_class e = FileSystemError \<or> error_class e = ParsingError then Inl e
          else Inl (Thrown ParsingError
                      (''Unexpected error processing '' @ co_filePath options @ '': ''
                         @ message e)))"

section \<open>Batch processing\<close>

record ProcessingError =
  pe_type :: ErrorType
  pe_filePath :: string
  pe_message :: string
  recoverable :: bool

record FileProcessingResult =
  fr_filePath :: string
  fr_chunks :: "FileChunk list"
  fr_error :: "ProcessingError option"

record ProcessingStats =
  filesProcessed :: nat
  chunksCreated :: nat
  errors :: "ProcessingError list"

record BatchProcessingResult =
  stats :: ProcessingStats
  chunks :: "FileChunk list"

record BatchProcessingOptions =
  rootPath :: string
  bo_maxTokens :: int
  bo_modelName :: string
  concurrency :: int
  extensions :: "string list"
  excludePatterns :: "string list"
  continueOnError :: bool

text \<open>\<open>String.prototype.toLowerCase\<close> on code units below 256, and \<open>includes\<close> (here \<open>str_includes\<close>).
  The capital letters are the code units 65 to 90 and 192 to 222 without 215; the small
  letter is 32 higher, which sets the bit of value 32.\<close>

definition to_lower :: "char \<Rightarrow> char" where
  "to_lower c =
     (let n = (of_char c :: nat) in
      if (65 \<le> n \<and> n \<le> 90) \<or> (192 \<le> n \<and> n \<le> 222 \<and> n \<noteq> 215)
      then (case c of Char b0 b1 b2 b3 b4 b5 b6 b7 \<Rightarrow> Char b0 b1 b2 b3 b4 True b6 b7)
      else c)"

definition toLowerCase :: "string \<Rightarrow> string" where
  "toLowerCase s = map to_lower s"

definition str_includes :: "string \<Rightarrow> string \<Rightarrow> bool" where
  "str_includes s sub = sublist sub s"

text \<open>Every value thrown in this program is an \<open>Error\<close> object.\<close>

definition determineErrorType :: "thrown \<Rightarrow> ErrorType" where
  "determineErrorType e =
     (let message = toLowerCase (message e) in
      if str_includes message ''enoent'' \<or> str_includes message ''eacces'' \<or> str_includes message ''file''
      then file_system
      else if str_includes message ''parse'' \<or> str_includes message ''syntax'' then parsing
      else if str_includes message ''token'' \<or> str_includes message ''tiktoken'' then token_processing
      else if str_includes message ''chroma'' \<or> str_includes message ''database''
              \<or> str_includes message ''embedding''
      then database
      else parsing)"

text \<open>
  \<open>processFileWithErrorHandling\<close> is an \<open>async\<close> function without \<open>await\<close>: its body runs
  to the end when it is called, and the promise it returns is already settled, fulfilled
  (\<open>Inr\<close>) or rejected (\<open>Inl\<close>).
\<close>

definition processFileWithErrorHandling ::
  "env \<Rightarrow> string \<Rightarrow> ChunkFileOptions \<Rightarrow> bool \<Rightarrow> thrown + FileProcessingResult" where
  "processFileWithErrorHandling env fp options coe =
     (case chunkFile env options of
        Inr cs \<Rightarrow> Inr \<lparr>fr_filePath = fp, fr_chunks = cs, fr_error = None\<rparr>
      | Inl e \<Rightarrow>
          if \<not> coe then Inl e
          else Inr \<lparr>fr_filePath = fp, fr_chunks = [],
                    fr_error = Some \<lparr>pe_type = determineErrorType e, pe_filePath = fp,
                                      pe_message = message e, recoverable = coe\<rparr>\<rparr>)"

text \<open>
  The loop of \<open>processFilesWithConcurrency\<close>.  Every promise of \<open>inProgress\<close> is settled,
  so \<open>await Promise.race(inProgress)\<close> yields the outcome of the first one, and never
  settles on the empty array (\<open>None\<close>).  \<open>Promise.resolve(completed)\<close> is a new promise,
  equal to none of \<open>inProgress\<close>: \<open>findIndex\<close> returns \<open>-1\<close> and nothing is removed.
\<close>

fun processFilesWithConcurrency_loop ::
  "env \<Rightarrow> int \<Rightarrow> string \<Rightarrow> int \<Rightarrow> bool \<Rightarrow> string list
     \<Rightarrow> (thrown + FileProcessingResult) list \<Rightarrow> FileProcessingResult list
     \<Rightarrow> (thrown + (FileProcessingResult list \<times> (thrown + FileProcessingResult) list)) option"
  where
  "processFilesWithConcurrency_loop env maxTokens mn conc coe [] inProgress results =
     Some (Inr (results, inProgress))"
| "processFilesWithConcurrency_loop env maxTokens mn conc coe (fp # fps) inProgress results =
     (let processingPromise =
            processFileWithErrorHandling env fp
              \<lparr>co_filePath = fp, co_maxTokens = maxTokens, co_modelName = mn\<rparr> coe
      in if int (length inProgress) \<ge> conc then
           (case inProgress of
              [] \<Rightarrow> None
            | Inl e # _ \<Rightarrow> Some (Inl e)
            | Inr completed # _ \<Rightarrow>
                processFilesWithConcurrency_loop env maxTokens mn conc coe fps
                  (inProgress @ [processingPromise]) (results @ [completed]))
         else processFilesWithConcurrency_loop env maxTokens mn conc coe fps
                (inProgress @ [processingPromise]) results)"

text \<open>\<open>Promise.all\<close> of settled promises: the first rejection, or all the values.\<close>

fun promise_all :: "(thrown + 'a) list \<Rightarrow> thrown + 'a list" where
  "promise_all [] = Inr []"
| "promise_all (Inl e # ps) = Inl e"
| "promise_all (Inr v # ps) = (case promise_all ps of Inl e \<Rightarrow> Inl e | Inr vs \<Rightarrow> Inr (v # vs))"

definition processFilesWithConcurrency ::
  "env \<Rightarrow> string list \<Rightarrow> int \<Rightarrow> string \<Rightarrow> int \<Rightarrow> bool
     \<Rightarrow> (thrown + FileProcessingResult list) option" where
  "processFilesWithConcurrency env filePaths maxTokens mn conc coe =
     (case processFilesWithConcurrency_loop env maxTokens mn conc coe filePaths [] [] of
        None \<Rightarrow> None
      | Some (Inl e) \<Rightarrow> Some (Inl e)
      | Some (Inr (results, inProgress)) \<Rightarrow>
          (case promise_all inProgress of
             Inl e \<Rightarrow> Some (Inl e)
           | Inr remainingResults \<Rightarrow> Some (Inr (results @ remainingResults))))"

text \<open>The aggregation of the results at the end of \<open>batchProcessFiles\<close>.\<close>

definition aggregate :: "FileProcessingResult list \<Rightarrow> BatchProcessingResult" where
  "aggregate results =
     (let allChunks = concat (map fr_chunks (filter (\<lambda>r. fr_error r = None) results));
          errs = concat (map (\<lambda>r. case fr_error r of Some e \<Rightarrow> [e] | None \<Rightarrow> []) results)
      in \<lparr>stats = \<lparr>filesProcessed = length (filter (\<lambda>r. fr_error r = None) results),
                    chunksCreated = length allChunks, errors = errs\<rparr>,
          chunks = allChunks\<rparr>)"

definition batchProcessFiles ::
  "env \<Rightarrow> BatchProcessingOptions \<Rightarrow> (thrown + BatchProcessingResult) option" where
  "batchProcessFiles env options =
     (case scanRepository env (rootPath options) (extensions options) (excludePatterns options) of
        Inl msg \<Rightarrow> Some (Inl (Thrown PlainError (''Failed to scan repository: '' @ msg)))
      | Inr filePaths \<Rightarrow>
          if length filePaths = 0
          then Some (Inr \<lparr>stats = \<lparr>filesProcessed = 0, chunksCreated = 0, errors = []\<rparr>,
                          chunks = []\<rparr>)
          else (case processFilesWithConcurrency env filePaths (bo_maxTokens options)
                       (bo_modelName options) (concurrency options) (continueOnError options) of
                  None \<Rightarrow> None
                | Some (Inl e) \<Rightarrow> Some (Inl e)
                | Some (Inr results) \<Rightarrow> Some (Inr (aggregate results))))"

definition validateBatchOptions :: "BatchProcessingOptions \<Rightarrow> thrown + unit" where
  "validateBatchOptions options =
     (if rootPath options = [] then Inl (Thrown PlainError ''rootPath is required'')
      else if bo_maxTokens options = 0 \<or> bo_maxTokens options \<le> 0
      then Inl (Thrown PlainError ''maxTokens must be a positive number'')
      else if bo_modelName options = [] then Inl (Thrown PlainError ''modelName is required'')
      else if concurrency options \<le> 0
      then Inl (Thrown PlainError ''concurrency must be a positive number'')
      else if length (extensions options) = 0
      then Inl (Thrown PlainError ''extensions array cannot be empty'')
      else Inr ())"

text \<open>The text of the gap before a node, as \<open>processFileWithCursor\<close> computes it, and
  the promises that are fulfilled.\<close>

definition gapBefore :: "string list \<Rightarrow> nat \<Rightarrow> ASTNode \<Rightarrow> string" where
  "gapBefore sourceLines cursor node =
     join ''\<newline>'' (slice (cursor - 1) (row (startPosition node)) sourceLines)"

definition fulfilled :: "thrown + 'a \<Rightarrow> bool" where
  "fulfilled p = (case p of Inl e \<Rightarrow> False | Inr v \<Rightarrow> True)"



text \<open>An error of \<open>countTokens\<close>: the encoder threw on some text.\<close>

definition count_error :: "Tokenizer \<Rightarrow> thrown \<Rightarrow> bool" where
  "count_error t e =
     (\<exists>s y. encoding t s = Inl y \<and>
            e = Thrown TokenProcessingError (''Failed to count tokens: '' @ y))"

text \<open>The outcome of one file in a batch run that continues on errors.\<close>

definition fileResult :: "env \<Rightarrow> int \<Rightarrow> string \<Rightarrow> string \<Rightarrow> FileProcessingResult" where
  "fileResult env m mn fp =
     (case chunkFile env \<lparr>co_filePath = fp, co_maxTokens = m, co_modelName = mn\<rparr> of
        Inr cs \<Rightarrow> \<lparr>fr_filePath = fp, fr_chunks = cs, fr_error = None\<rparr>
      | Inl e \<Rightarrow> \<lparr>fr_filePath = fp, fr_chunks = [],
                  fr_error = Some \<lparr>pe_type = determineErrorType e, pe_filePath = fp,
                                    pe_message = message e, recoverable = True\<rparr>\<rparr>)"

section \<open>Spans of chunks and coverage of lines\<close>

text \<open>
  The span of a split or of a chunk is the pair of its start line and its end line.  A
  span is before another when it ends before the other starts, or when both are the same
  single line (two fragments of one over-long line).  A line is covered by a list of spans
  when one of them contains it.  A line of text is blank when it is whitespace-only.
\<close>

definition span :: "'a CodeSplit_scheme \<Rightarrow> nat \<times> nat" where
  "span c = (startLine c, endLine c)"

definition before :: "nat \<times> nat \<Rightarrow> nat \<times> nat \<Rightarrow> bool" where
  "before a b = (snd a < fst b \<or> (fst a = snd a \<and> fst b = snd b \<and> fst a = fst b))"

definition inside :: "nat \<Rightarrow> nat \<Rightarrow> nat \<times> nat \<Rightarrow> bool" where
  "inside lo hi a = (lo \<le> fst a \<and> fst a \<le> snd a \<and> snd a \<le> hi)"

definition covered :: "(nat \<times> nat) list \<Rightarrow> nat \<Rightarrow> bool" where
  "covered sp l = list_ex (\<lambda>a. fst a \<le> l \<and> l \<le> snd a) sp"

definition blank :: "string \<Rightarrow> bool" where
  "blank s = list_all is_ws s"

text \<open>
  The 1-based first and last line of a node, the lines of its text, and the nodes that
  fit a file of \<open>nlines\<close> lines: the node ends inside the file, not before it starts, and
  its text has one line for every line of its range.  A node is before another when it
  ends on a row above the row where the other starts.
\<close>

definition nodeStart :: "ASTNode \<Rightarrow> nat" where
  "nodeStart n = row (startPosition n) + 1"

definition nodeEnd :: "ASTNode \<Rightarrow> nat" where
  "nodeEnd n = row (endPosition n) + 1"

definition node_lines :: "ASTNode \<Rightarrow> string list" where
  "node_lines n = split_on CHR ''\<newline>'' (node_text n)"

definition wf_node :: "nat \<Rightarrow> ASTNode \<Rightarrow> bool" where
  "wf_node nlines n =
     (row (startPosition n) \<le> row (endPosition n) \<and> row (endPosition n) < nlines \<and>
      length (node_lines n) = row (endPosition n) - row (startPosition n) + 1)"

definition node_before :: "ASTNode \<Rightarrow> ASTNode \<Rightarrow> bool" where
  "node_before a b = (row (endPosition a) < row (startPosition b))"

text \<open>
  The lines that need a chunk, among the lines \<open>lo\<close> to \<open>hi - 1\<close> of the file with the
  lines \<open>L\<close> and among the lines of the nodes \<open>ns\<close>: every line of the text of a node that
  is not blank, and every line of the file outside all nodes that is not blank.
\<close>

definition required :: "string list \<Rightarrow> ASTNode list \<Rightarrow> nat \<Rightarrow> nat \<Rightarrow> nat \<Rightarrow> bool" where
  "required L ns lo hi k =
     ((\<exists>n \<in> set ns. \<exists>i<length (node_lines n). k = nodeStart n + i \<and> \<not> blank (node_lines n ! i))
      \<or> (lo \<le> k \<and> k < hi \<and> \<not> blank (L ! (k - 1))
          \<and> (\<forall>n \<in> set ns. k < nodeStart n \<or> nodeEnd n < k)))"

text \<open>
  What the spans \<open>sp\<close> emitted for a unit of text with the lines \<open>ls\<close>, at the lines \<open>lo\<close>
  to \<open>hi\<close> of the file, satisfy; the invariant of the loop of \<open>splitCode\<close> at the line
  \<open>ln\<close>, where \<open>P\<close> holds of the lines read so far that are not blank; and the invariant
  of the loop of \<open>processFileWithCursor\<close>.
\<close>

definition unit_ok :: "nat \<Rightarrow> nat \<Rightarrow> string list \<Rightarrow> (nat \<times> nat) list \<Rightarrow> bool" where
  "unit_ok lo hi ls sp =
     (sorted_wrt before sp \<and> list_all (inside lo hi) sp \<and>
      (\<forall>i<length ls. \<not> blank (ls ! i) \<longrightarrow> covered sp (lo + i)))"

definition loop_inv ::
  "nat \<Rightarrow> (nat \<Rightarrow> bool) \<Rightarrow> nat \<Rightarrow> CodeSplit list \<Rightarrow> string list \<Rightarrow> nat \<Rightarrow> bool" where
  "loop_inv lo P ln splits cc csl =
     (csl + length cc = ln \<and> lo \<le> csl \<and>
      (\<forall>a \<in> set (map span splits). lo \<le> fst a \<and> fst a \<le> snd a \<and> snd a < csl) \<and>
      sorted_wrt before (map span splits) \<and>
      (\<forall>k. P k \<longrightarrow> covered (map span splits) k \<or> (csl \<le> k \<and> k < ln \<and> \<not> list_all blank cc)))"

definition file_inv :: "(nat \<Rightarrow> bool) \<Rightarrow> nat \<Rightarrow> (nat \<times> nat) list \<Rightarrow> bool" where
  "file_inv P cursor sp =
     (1 \<le> cursor \<and> (\<forall>a \<in> set sp. 1 \<le> fst a \<and> fst a \<le> snd a \<and> snd a < cursor) \<and>
      sorted_wrt before sp \<and> (\<forall>k. P k \<longrightarrow> covered sp k))"

text \<open>The spans of the chunks that \<open>processFileWithCursor\<close> returns (\<open>None\<close> when it
  throws).\<close>

definition file_spans ::
  "scanner \<Rightarrow> string \<Rightarrow> ASTNode list \<Rightarrow> string \<Rightarrow> string \<Rightarrow> int \<Rightarrow> Tokenizer
     \<Rightarrow> (nat \<times> nat) list option" where
  "file_spans ix fileContent astNodes fp lang m t =
     (case processFileWithCursor ix fileContent astNodes fp lang m t of
        Inr cs \<Rightarrow> Some (map span cs)
      | Inl e \<Rightarrow> None)"

section \<open>Tokenizers used in the examples\<close>

text \<open>A tokenizer never throws when its encoder returns a count for every text.\<close>

definition never_throws :: "Tokenizer \<Rightarrow> bool" where
  "never_throws t = (\<forall>s. \<exists>n. encoding t s = Inr n)"

text \<open>An encoder with one token per code unit, and an encoder that always throws.  On the
  texts \<open>a\<close>, \<open>b\<close> and \<open>a\<newline>b\<close> the first one counts as \<open>cl100k_base\<close> does: 1, 1 and 3.\<close>

definition charTokenizer :: Tokenizer where
  "charTokenizer = \<lparr>encoding = (\<lambda>s. Inr (length s)), modelName = ''chars''\<rparr>"

definition failingTokenizer :: Tokenizer where
  "failingTokenizer = \<lparr>encoding = (\<lambda>s. Inl ''boom''), modelName = ''failing''\<rparr>"

text \<open>
  An environment for the examples: the files are an association list from paths to
  contents, the extension of a path is its part from the last dot on, the parser returns
  the tree that \<open>tree\<close> gives for the content, \<open>get_encoding\<close> accepts every string and
  rejects a value that is not a string, the scan finds no imports and no exports, and the
  repository scanner returns the paths of the files.
\<close>

definition example_extname :: "string \<Rightarrow> string" where
  "example_extname p =
     (let r = takeWhile (\<lambda>c. c \<noteq> CHR ''.'') (rev p)
      in if length r = length p then [] else CHR ''.'' # rev r)"

definition pos :: "nat \<Rightarrow> nat \<Rightarrow> Position" where
  "pos r c = \<lparr>row = r, column = c\<rparr>"

definition programNode :: "string \<Rightarrow> SyntaxNode" where
  "programNode c = SyntaxNode ''program'' (pos 0 0) (pos 0 0) c []"

definition exampleEnv ::
  "(string \<times> string) list \<Rightarrow> (string \<Rightarrow> SyntaxNode) \<Rightarrow> encoder \<Rightarrow> env" where
  "exampleEnv files tree enc =
     \<lparr>extname = example_extname,
      readFileSync = (\<lambda>p. case map_of files p of
                           Some c \<Rightarrow> Inr c
                         | None \<Rightarrow> Inl (''ENOENT: no such file or directory, open '' @ p)),
      parse = (\<lambda>lang c. Inr (tree c)),
      get_encoding = (\<lambda>v. case v of JSString n \<Rightarrow> Inr enc | _ \<Rightarrow> Inl ''Invalid encoding''),
      extractImportsExports = (\<lambda>c k. ([], [])),
      scanRepository = (\<lambda>root exts excl. Inr (map fst files))\<rparr>"


text \<open>The tree of a file that is one function declaration.\<close>

definition functionProgram :: "string \<Rightarrow> SyntaxNode" where
  "functionProgram c =
     SyntaxNode ''program'' (pos 0 0) (pos 0 0) c
       [SyntaxNode ''function_declaration'' (pos 0 0) (pos 0 0) c []]"

text \<open>A scan that finds nothing, and a collected node on the rows \<open>r1\<close> to \<open>r2\<close>.\<close>

definition no_scan :: scanner where
  "no_scan c k = ([], [])"

definition exampleNode :: "string \<Rightarrow> nat \<Rightarrow> nat \<Rightarrow> string \<Rightarrow> ASTNode" where
  "exampleNode ty r1 r2 tx =
     \<lparr>type = ty, startPosition = pos r1 0, endPosition = pos r2 0, node_text = tx,
      symbolName = None, symbolType = Some ty, parentLineage = None\<rparr>"

text \<open>The text after the first part of a split: every further part with its delimiter.\<close>

definition tailjoin :: "char \<Rightarrow> string list \<Rightarrow> string" where
  "tailjoin d ps = concat (map (\<lambda>p. d # p) ps)"

section \<open>Properties of the splitter\<close>

declare findCharacterSplit_loop.simps [simp del] splitLongLine_loop.simps [simp del]

lemmas env_defs = exampleEnv_def example_extname_def programNode_def pos_def
  chunkFile_def chunkFile_try_def LANG_CONFIG_def tsConfig_def tsxConfig_def
  createTokenizer_def new_Tokenizer_def encodingName_def object_get_def
  SUPPORTED_MODELS_def object_prototype_keys_def
  processFileWithCursor_def processGapContent_def processASTNodeContent_def
  nodeMetadata_def gapMetadata_def
  extractSymbolName.simps extractSymbolType_def
  isContainerNode_def sortNodes_def slice_def nonempty_def split_chunks_def
  processFileWithErrorHandling_def determineErrorType_def toLowerCase_def to_lower_def
  str_includes_def sublist_code

lemmas batch_defs = batchProcessFiles_def processFilesWithConcurrency_def aggregate_def

lemmas eval_defs = charTokenizer_def failingTokenizer_def countTokens_def trim_def is_ws_def flushChunk_def
  splitCode_def splitLongLine_def splitLongLine_loop.simps chooseSplit_def findBestSplit_def
  findCharacterSplit_def findCharacterSplit_loop.simps delimiters_def Let_def


lemma trim_empty_iff: "trim s = [] \<longleftrightarrow> list_all is_ws s"
proof
  assume "trim s = []"
  then have "\<forall>c \<in> set (dropWhile is_ws s). is_ws c"
    by (simp add: trim_def)
  then have "dropWhile is_ws s = []"
    using hd_dropWhile[of is_ws s] hd_in_set[of "dropWhile is_ws s"] by blast
  then show "list_all is_ws s"
    by (simp add: list_all_iff)
next
  assume "list_all is_ws s"
  then show "trim s = []"
    by (auto simp: trim_def list_all_iff dest: set_dropWhileD)
qed

lemma join_Cons: "join [d] (p # ps) = p @ tailjoin d ps"
  by (induction ps arbitrary: p) (auto simp: tailjoin_def)

lemma split_on_nonempty: "split_on d s \<noteq> []"
  by (induction s) auto

text \<open>An equation that evaluates \<open>split_on\<close> with one recursive call.\<close>

lemma split_on_Cons_eval:
  "split_on d (c # cs) =
     (if c = d then [] # split_on d cs
      else (case split_on d cs of [] \<Rightarrow> [[c]] | p # ps \<Rightarrow> (c # p) # ps))"
  using split_on_nonempty[of d cs] by (cases "split_on d cs") simp_all

lemma join_split_on: "join [d] (split_on d s) = s"
proof (induction s)
  case Nil
  then show ?case by simp
next
  case (Cons c cs)
  obtain p ps where ps: "split_on d cs = p # ps"
    using split_on_nonempty by (cases "split_on d cs") auto
  with Cons show ?case
    by (auto simp: join_Cons)
qed

lemma findBestSplit_parts_prefix:
  "findBestSplit_parts t m d i ps cur = Inr r \<Longrightarrow>
     r = cur \<or> prefix r (if i = 0 then join [d] ps else cur @ tailjoin d ps)"
proof (induction ps arbitrary: i cur)
  case Nil
  then show ?case by simp
next
  case (Cons p ps)
  let ?tp = "if i = 0 then p else cur @ [d] @ p"
  show ?case
  proof (cases "countTokens t ?tp")
    case (Inl e)
    with Cons.prems show ?thesis by (simp add: Let_def)
  next
    case (Inr n)
    show ?thesis
    proof (cases "int n \<le> m")
      case True
      with Inr Cons.prems have "findBestSplit_parts t m d (i + 1) ps ?tp = Inr r"
        by (simp add: Let_def)
      from Cons.IH[OF this] have "r = ?tp \<or> prefix r (?tp @ tailjoin d ps)"
        by simp
      then have "prefix r (?tp @ tailjoin d ps)"
        by auto
      then show ?thesis
        by (auto simp: join_Cons tailjoin_def)
    next
      case False
      with Inr Cons.prems show ?thesis by (simp add: Let_def)
    qed
  qed
qed

lemma findBestSplit_delims_prefix:
  "findBestSplit_delims text m t ds best = Inr r \<Longrightarrow> prefix best text \<Longrightarrow> prefix r text"
proof (induction ds arbitrary: best)
  case Nil
  then show ?case by simp
next
  case (Cons d ds)
  from Cons.prems(1) obtain cp where
    cp: "findBestSplit_parts t m d 0 (split_on d text) [] = Inr cp"
    and rest: "findBestSplit_delims text m t ds (if length cp > length best then cp else best) = Inr r"
    by (auto split: sum.splits)
  from findBestSplit_parts_prefix[OF cp] have "prefix cp text"
    by (auto simp: join_split_on)
  with Cons.prems(2) have "prefix (if length cp > length best then cp else best) text"
    by simp
  from Cons.IH[OF rest this] show ?case .
qed

lemma findBestSplit_prefix: "findBestSplit text m t ds = Inr r \<Longrightarrow> prefix r text"
  unfolding findBestSplit_def by (erule findBestSplit_delims_prefix) simp

lemma findCharacterSplit_prefix: "findCharacterSplit text m t = Inr r \<Longrightarrow> prefix r text"
  by (auto simp: findCharacterSplit_def take_is_prefix split: sum.splits)

lemma chooseSplit_prefix: "chooseSplit text m t = Inr r \<Longrightarrow> prefix r text"
  by (auto simp: chooseSplit_def take_is_prefix split: sum.splits if_splits
           dest: findBestSplit_prefix findCharacterSplit_prefix)

lemma splitLongLine_loop_sound:
  "splitLongLine_loop ln m t rem splits = Inr res \<Longrightarrow>
     concat (map content res) = concat (map content splits) @ rem \<and>
     (\<forall>s \<in> set res. s \<in> set splits \<or> (startLine s = ln \<and> endLine s = ln))"
proof (induction ln m t rem splits rule: splitLongLine_loop.induct)
  case (1 ln m t rem splits)
  show ?case
  proof (cases "length rem > 0")
    case False
    with "1.prems" show ?thesis
      by (simp add: splitLongLine_loop.simps)
  next
    case True
    with "1.prems" obtain bs n where
      bs: "chooseSplit rem m t = Inr bs" and n: "countTokens t bs = Inr n"
      and rec: "splitLongLine_loop ln m t (drop (length bs) rem)
                  (splits @ [\<lparr>content = bs, startLine = ln, endLine = ln, tokenCount = n\<rparr>]) = Inr res"
      by (subst (asm) splitLongLine_loop.simps) (auto split: sum.splits)
    from chooseSplit_prefix[OF bs] have "bs @ drop (length bs) rem = rem"
      by (auto simp: prefix_def)
    then have eq: "(concat (map content splits) @ bs) @ drop (length bs) rem
                     = concat (map content splits) @ rem"
      by simp
    from "1.IH"[OF True bs n rec] have
      c: "concat (map content res) = (concat (map content splits) @ bs) @ drop (length bs) rem"
      and l: "\<forall>s \<in> set res. s \<in> set (splits @ [\<lparr>content = bs, startLine = ln, endLine = ln,
                 tokenCount = n\<rparr>]) \<or> (startLine s = ln \<and> endLine s = ln)"
      by simp_all
    from c eq have "concat (map content res) = concat (map content splits) @ rem"
      by (rule trans)
    moreover from l have "\<forall>s \<in> set res. s \<in> set splits \<or> (startLine s = ln \<and> endLine s = ln)"
      by auto
    ultimately show ?thesis by blast
  qed
qed

lemma countTokens_total: "never_throws t \<Longrightarrow> \<exists>n. countTokens t s = Inr n"
  by (auto simp: never_throws_def countTokens_def split: sum.splits) (metis Inl_Inr_False)

lemma findBestSplit_parts_total:
  "never_throws t \<Longrightarrow> \<exists>r. findBestSplit_parts t m d i ps cur = Inr r"
proof (induction ps arbitrary: i cur)
  case Nil
  then show ?case by simp
next
  case (Cons p ps)
  obtain n where "countTokens t (if i = 0 then p else cur @ [d] @ p) = Inr n"
    using countTokens_total[OF Cons.prems] by blast
  with Cons.IH[OF Cons.prems] show ?case
    by (simp add: Let_def)
qed

lemma findBestSplit_delims_total:
  "never_throws t \<Longrightarrow> \<exists>r. findBestSplit_delims text m t ds best = Inr r"
proof (induction ds arbitrary: best)
  case Nil
  then show ?case by simp
next
  case (Cons d ds)
  obtain cp where "findBestSplit_parts t m d 0 (split_on d text) [] = Inr cp"
    using findBestSplit_parts_total[OF Cons.prems] by blast
  with Cons.IH[OF Cons.prems] show ?case
    by simp
qed

lemma findCharacterSplit_loop_total:
  "never_throws t \<Longrightarrow> \<exists>r. findCharacterSplit_loop str m t l r0 b = Inr r"
proof (induction str m t l r0 b rule: findCharacterSplit_loop.induct)
  case (1 str m t l r0 b)
  show ?case
  proof (cases "l \<le> r0")
    case False
    then show ?thesis by (simp add: findCharacterSplit_loop.simps)
  next
    case True
    obtain n where n: "countTokens t (take (nat ((l + r0) div 2)) str) = Inr n"
      using countTokens_total[OF "1.prems"] by blast
    show ?thesis
    proof (cases "int n \<le> m")
      case le: True
      from "1.IH"(1)[OF True refl n le "1.prems"] True n le show ?thesis
        by (subst findCharacterSplit_loop.simps) (simp add: Let_def)
    next
      case gt: False
      from "1.IH"(2)[OF True refl n gt "1.prems"] True n gt show ?thesis
        by (subst findCharacterSplit_loop.simps) (simp add: Let_def)
    qed
  qed
qed

lemma chooseSplit_total: "never_throws t \<Longrightarrow> \<exists>r. chooseSplit text m t = Inr r"
proof -
  assume nt: "never_throws t"
  obtain b where b: "findBestSplit text m t delimiters = Inr b"
    using findBestSplit_delims_total[OF nt] unfolding findBestSplit_def by blast
  obtain k where k: "findCharacterSplit_loop text m t 0 (int (length text)) 0 = Inr k"
    using findCharacterSplit_loop_total[OF nt] by blast
  from b k show ?thesis
    by (simp add: chooseSplit_def findCharacterSplit_def)
qed

lemma splitLongLine_loop_total:
  "never_throws t \<Longrightarrow> \<exists>res. splitLongLine_loop ln m t rem splits = Inr res"
proof (induction ln m t rem splits rule: splitLongLine_loop.induct)
  case (1 ln m t rem splits)
  show ?case
  proof (cases "length rem > 0")
    case False
    then show ?thesis by (simp add: splitLongLine_loop.simps)
  next
    case True
    obtain bs where bs: "chooseSplit rem m t = Inr bs"
      using chooseSplit_total[OF "1.prems"] by blast
    obtain n where n: "countTokens t bs = Inr n"
      using countTokens_total[OF "1.prems"] by blast
    from "1.IH"[OF True bs n "1.prems"] True bs n show ?thesis
      by (subst splitLongLine_loop.simps) simp
  qed
qed

lemma never_throws_charTokenizer: "never_throws charTokenizer"
  by (simp add: never_throws_def charTokenizer_def)



text \<open>
  C4.  Every fragment that \<open>splitLongLine\<close> produces for a line carries the number of that
  line as its start and its end line, and the contents of the fragments, concatenated in
  the order of emission, are the line.  When the tokenizer never throws, \<open>splitLongLine\<close>
  does produce fragments.  This holds for every line, so also for each line whose token
  count exceeds the budget.
\<close>

theorem splitLongLine_reconstruction:
  "(splitLongLine line lineNumber maxTokens t = Inr splits \<longrightarrow>
      (\<forall>s \<in> set splits. startLine s = lineNumber \<and> endLine s = lineNumber) \<and>
      concat (map content splits) = line) \<and>
   (never_throws t \<longrightarrow> (\<exists>res. splitLongLine line lineNumber maxTokens t = Inr res))"
proof (intro conjI impI)
  assume r: "splitLongLine line lineNumber maxTokens t = Inr splits"
  from splitLongLine_loop_sound[OF r[unfolded splitLongLine_def]]
  show "\<forall>s \<in> set splits. startLine s = lineNumber \<and> endLine s = lineNumber"
    and "concat (map content splits) = line"
    by simp_all
next
  assume "never_throws t"
  then show "\<exists>res. splitLongLine line lineNumber maxTokens t = Inr res"
    unfolding splitLongLine_def by (rule splitLongLine_loop_total)
qed

theorem splitLongLine_reconstruction_witness:
  "never_throws charTokenizer \<and>
   splitLongLine ''ab cd'' 7 2 charTokenizer =
     Inr [\<lparr>content = ''ab'', startLine = 7, endLine = 7, tokenCount = 2\<rparr>,
          \<lparr>content = '' c'', startLine = 7, endLine = 7, tokenCount = 2\<rparr>,
          \<lparr>content = ''d'', startLine = 7, endLine = 7, tokenCount = 1\<rparr>] \<and>
   concat (map content
     [\<lparr>content = ''ab'', startLine = 7, endLine = 7, tokenCount = 2\<rparr>,
      \<lparr>content = '' c'', startLine = 7, endLine = 7, tokenCount = 2\<rparr>,
      \<lparr>content = ''d'', startLine = 7, endLine = 7, tokenCount = 1\<rparr>]) = ''ab cd''"
proof -
  have ev: "splitLongLine ''ab cd'' 7 2 charTokenizer =
     Inr [\<lparr>content = ''ab'', startLine = 7, endLine = 7, tokenCount = 2\<rparr>,
          \<lparr>content = '' c'', startLine = 7, endLine = 7, tokenCount = 2\<rparr>,
          \<lparr>content = ''d'', startLine = 7, endLine = 7, tokenCount = 1\<rparr>]"
    by (simp add: eval_defs)
  from splitLongLine_reconstruction[of "''ab cd''" 7 2 charTokenizer
      "[\<lparr>content = ''ab'', startLine = 7, endLine = 7, tokenCount = 2\<rparr>,
        \<lparr>content = '' c'', startLine = 7, endLine = 7, tokenCount = 2\<rparr>,
        \<lparr>content = ''d'', startLine = 7, endLine = 7, tokenCount = 1\<rparr>]"] ev
    never_throws_charTokenizer
  show ?thesis by blast
qed



text \<open>
  C10.  \<open>countTokens\<close> returns 0 for every empty or whitespace-only text, whatever the
  encoder is (also one that always throws), so the encoder is not consulted.  Hence such a
  text does not exceed a positive budget: \<open>exceedsLimit\<close> is false, and the assembler
  emits a whitespace-only node or gap as one unsplit chunk with token count 0.
\<close>

theorem countTokens_whitespace:
  assumes "list_all is_ws s"
  shows "countTokens t s = Inr 0 \<and>
    (0 < maxTokens \<longrightarrow>
       exceedsLimit t s maxTokens = Inr False \<and>
       (\<exists>c. processGapContent ix s sl el fp lang maxTokens t = Inr [c]
            \<and> tokenCount c = 0 \<and> content c = s \<and> chunkType (metadata c) = gap) \<and>
       (node_text node = s \<longrightarrow>
          (\<exists>c. processASTNodeContent ix node fp lang maxTokens t = Inr [c]
               \<and> tokenCount c = 0 \<and> content c = s \<and> chunkType (metadata c) = ast_node)))"
proof -
  from assms have b: "trim s = []"
    by (simp add: trim_empty_iff)
  then have ct: "countTokens t s = Inr 0"
    by (simp add: countTokens_def)
  have "exceedsLimit t s maxTokens = Inr False" if "0 < maxTokens"
    using ct that by (simp add: exceedsLimit_def)
  moreover have "\<exists>c. processGapContent ix s sl el fp lang maxTokens t = Inr [c]
      \<and> tokenCount c = 0 \<and> content c = s \<and> chunkType (metadata c) = gap" if "0 < maxTokens"
    using ct that by (simp add: processGapContent_def gapMetadata_def Let_def split: prod.splits)
  moreover have "\<exists>c. processASTNodeContent ix node fp lang maxTokens t = Inr [c]
      \<and> tokenCount c = 0 \<and> content c = s \<and> chunkType (metadata c) = ast_node"
    if "0 < maxTokens" and "node_text node = s"
    using ct that by (simp add: processASTNodeContent_def nodeMetadata_def Let_def split: prod.splits)
  ultimately show ?thesis
    using ct by blast
qed

theorem countTokens_whitespace_witness:
  "list_all is_ws '' \<newline>  '' \<and> (0::int) < 5 \<and>
   countTokens failingTokenizer '' \<newline>  '' = Inr 0 \<and>
   exceedsLimit failingTokenizer '' \<newline>  '' 5 = Inr False"
proof -
  have h: "list_all is_ws '' \<newline>  ''"
    by (simp add: is_ws_def)
  have p: "(0::int) < 5"
    by simp
  from h p countTokens_whitespace[OF h, of failingTokenizer 5]
  show ?thesis by blast
qed

text \<open>
  C6 (as amended).  \<open>splitCode\<close> tests the text before the budget.  For an empty or
  whitespace-only text it returns the empty sequence for every budget, also one that is
  zero or negative; for any other text and a budget \<open>maxTokens \<le> 0\<close> it fails with the
  \<open>TokenProcessingError\<close> "maxTokens must be greater than 0".
\<close>

theorem splitCode_guards:
  "(list_all is_ws (sourceCode options) \<longrightarrow> splitCode options = Inr []) \<and>
   (\<not> list_all is_ws (sourceCode options) \<and> so_maxTokens options \<le> 0 \<longrightarrow>
      splitCode options = Inl (Thrown TokenProcessingError ''maxTokens must be greater than 0''))"
  by (simp add: splitCode_def trim_empty_iff)

theorem splitCode_guards_witness:
  "list_all is_ws '' \<newline>'' \<and>
   splitCode \<lparr>sourceCode = '' \<newline>'', so_startLine = 1, so_maxTokens = - 1,
     tokenizer = charTokenizer\<rparr> = Inr [] \<and>
   \<not> list_all is_ws ''test'' \<and> (0::int) \<le> 0 \<and>
   splitCode \<lparr>sourceCode = ''test'', so_startLine = 1, so_maxTokens = 0,
     tokenizer = charTokenizer\<rparr>
     = Inl (Thrown TokenProcessingError ''maxTokens must be greater than 0'')"
proof -
  have a: "list_all is_ws '' \<newline>''"
    by (simp add: is_ws_def)
  have b: "\<not> list_all is_ws ''test''"
    by (simp add: is_ws_def)
  from a b
    splitCode_guards[of "\<lparr>sourceCode = '' \<newline>'', so_startLine = 1, so_maxTokens = - 1,
       tokenizer = charTokenizer\<rparr>"]
    splitCode_guards[of "\<lparr>sourceCode = ''test'', so_startLine = 1, so_maxTokens = 0,
       tokenizer = charTokenizer\<rparr>"]
  show ?thesis by simp
qed

text \<open>The claim C6 as stated fails: with the empty text and the budget 0 the call returns
  the empty sequence and raises nothing.\<close>

theorem splitCode_empty_text_zero_budget:
  "splitCode \<lparr>sourceCode = [], so_startLine = 1, so_maxTokens = 0, tokenizer = charTokenizer\<rparr>
     = Inr []"
  by (simp add: splitCode_def)

text \<open>
  C9 (the code at the failing input).  \<open>constructor\<close> is not a key of the table of
  supported models, yet the property read finds the member inherited from
  \<open>Object.prototype\<close>, which is truthy: the name handed to \<open>get_encoding\<close> is that
  inherited value and not \<open>cl100k_base\<close>, and the constructor fails whenever
  \<open>get_encoding\<close> rejects it.
\<close>

theorem encodingName_inherited_key:
  "map_of SUPPORTED_MODELS ''constructor'' = None \<and>
   encodingName ''constructor'' = JSInherited ''constructor'' \<and>
   encodingName ''constructor'' \<noteq> JSString ''cl100k_base'' \<and>
   new_Tokenizer (\<lambda>v. case v of JSString n \<Rightarrow> Inr (encoding charTokenizer)
                               | _ \<Rightarrow> Inl ''Invalid encoding'') ''constructor''
     = Inl (Thrown TokenProcessingError
         ''Failed to initialize tokenizer for model constructor: Invalid encoding'')"
  by (simp add: SUPPORTED_MODELS_def encodingName_def object_get_def object_prototype_keys_def
        new_Tokenizer_def)

text \<open>
  C2 (the code at the failing input).  For the two-line text \<open>a\<newline>b\<close> the splitter
  flushes one split whose stored token count is the sum 1 + 1 of the counts of its lines,
  while the tokenizer counts 3 tokens in the content of that split.
\<close>

theorem splitCode_stored_count_differs:
  "splitCode \<lparr>sourceCode = ''a\<newline>b'', so_startLine = 1, so_maxTokens = 100,
      tokenizer = charTokenizer\<rparr>
     = Inr [\<lparr>content = ''a\<newline>b'', startLine = 1, endLine = 2, tokenCount = 2\<rparr>] \<and>
   countTokens charTokenizer ''a\<newline>b'' = Inr 3"
  by (simp add: eval_defs)

text \<open>
  C3 (the code at the failing input).  Under the budget 2 the same text is emitted as one
  split of two lines, not a single-character fallback, whose content has 3 tokens.
\<close>

theorem splitCode_split_over_budget:
  "splitCode \<lparr>sourceCode = ''a\<newline>b'', so_startLine = 1, so_maxTokens = 2,
      tokenizer = charTokenizer\<rparr>
     = Inr [\<lparr>content = ''a\<newline>b'', startLine = 1, endLine = 2, tokenCount = 2\<rparr>] \<and>
   countTokens charTokenizer ''a\<newline>b'' = Inr 3"
  by (simp add: eval_defs)

section \<open>Properties of chunkFile\<close>

lemma processGapContent_Inr:
  assumes "processGapContent ix g sl el fp lang m t = Inr cs"
  obtains (whole) n where "countTokens t g = Inr n" and "int n \<le> m"
      and "cs = [\<lparr>content = g, startLine = sl, endLine = el, tokenCount = n,
                  metadata = gapMetadata ix g sl el fp lang\<rparr>]"
    | (parts) n ss where "countTokens t g = Inr n" and "\<not> int n \<le> m"
      and "splitCode \<lparr>sourceCode = g, so_startLine = sl, so_maxTokens = m, tokenizer = t\<rparr> = Inr ss"
      and "cs = split_chunks (gapMetadata ix g sl el fp lang) ss"
  using assms by (auto simp: processGapContent_def split: sum.splits if_splits)

lemma processASTNodeContent_Inr:
  assumes "processASTNodeContent ix node fp lang m t = Inr cs"
  obtains (whole) n where "countTokens t (node_text node) = Inr n" and "int n \<le> m"
      and "cs = [\<lparr>content = node_text node, startLine = row (startPosition node) + 1,
                  endLine = row (endPosition node) + 1, tokenCount = n,
                  metadata = nodeMetadata ix node fp lang\<rparr>]"
    | (parts) n ss where "countTokens t (node_text node) = Inr n" and "\<not> int n \<le> m"
      and "splitCode \<lparr>sourceCode = node_text node, so_startLine = row (startPosition node) + 1,
              so_maxTokens = m, tokenizer = t\<rparr> = Inr ss"
      and "cs = split_chunks (nodeMetadata ix node fp lang) ss"
  using assms by (auto simp: processASTNodeContent_def Let_def split: sum.splits if_splits)

lemma processFileWithCursor_loop_Cons:
  assumes "processFileWithCursor_loop ix sourceLines fp lang m t (node # rest) acc cursor = Inr res"
  obtains gapChunks nodeChunks where
    "if cursor < row (startPosition node) + 1 \<and> trim (gapBefore sourceLines cursor node) \<noteq> []
     then processGapContent ix (gapBefore sourceLines cursor node) cursor (row (startPosition node))
            fp lang m t = Inr gapChunks
     else gapChunks = []"
    and "processASTNodeContent ix node fp lang m t = Inr nodeChunks"
    and "processFileWithCursor_loop ix sourceLines fp lang m t rest
           (acc @ gapChunks @ nodeChunks) (row (endPosition node) + 2) = Inr res"
  using assms by (auto simp: Let_def gapBefore_def split: sum.splits if_splits)

lemma processFileWithCursor_Inr:
  assumes "processFileWithCursor ix fileContent astNodes fp lang m t = Inr cs"
  obtains acc cursor trailing where
    "processFileWithCursor_loop ix (split_on CHR ''\<newline>'' fileContent) fp lang m t
       (sortNodes astNodes) [] 1 = Inr (acc, cursor)"
    and "if cursor \<le> length (split_on CHR ''\<newline>'' fileContent)
            \<and> trim (join ''\<newline>'' (drop (cursor - 1) (split_on CHR ''\<newline>'' fileContent))) \<noteq> []
         then processGapContent ix (join ''\<newline>'' (drop (cursor - 1) (split_on CHR ''\<newline>'' fileContent)))
                cursor (length (split_on CHR ''\<newline>'' fileContent)) fp lang m t = Inr trailing
         else trailing = []"
    and "cs = sort_key startLine (acc @ trailing)"
  using assms
  by (auto simp: processFileWithCursor_def Let_def split: sum.splits prod.splits if_splits)

lemma splitCode_nonpos:
  "so_maxTokens opts \<le> 0 \<Longrightarrow> splitCode opts = Inr ss \<Longrightarrow> ss = []"
  by (auto simp: splitCode_def split: if_splits)

lemma processGapContent_nonpos:
  assumes "m \<le> 0" and "processGapContent ix g sl el fp lang m t = Inr cs"
  shows "list_all (\<lambda>c. tokenCount c = 0) cs"
  using assms(2)
proof (cases rule: processGapContent_Inr)
  case (whole n)
  with assms(1) show ?thesis by simp
next
  case (parts n ss)
  with assms(1) splitCode_nonpos[of "\<lparr>sourceCode = g, so_startLine = sl, so_maxTokens = m,
      tokenizer = t\<rparr>" ss] show ?thesis
    by (simp add: split_chunks_def)
qed

lemma processASTNodeContent_nonpos:
  assumes "m \<le> 0" and "processASTNodeContent ix node fp lang m t = Inr cs"
  shows "list_all (\<lambda>c. tokenCount c = 0) cs"
  using assms(2)
proof (cases rule: processASTNodeContent_Inr)
  case (whole n)
  with assms(1) show ?thesis by simp
next
  case (parts n ss)
  with assms(1) splitCode_nonpos[of "\<lparr>sourceCode = node_text node,
      so_startLine = row (startPosition node) + 1, so_maxTokens = m, tokenizer = t\<rparr>" ss]
  show ?thesis
    by (simp add: split_chunks_def)
qed

lemma processFileWithCursor_loop_nonpos:
  assumes "m \<le> 0"
  shows "processFileWithCursor_loop ix sourceLines fp lang m t ns acc cursor = Inr (cs, cur)
         \<Longrightarrow> list_all (\<lambda>c. tokenCount c = 0) acc \<Longrightarrow> list_all (\<lambda>c. tokenCount c = 0) cs"
proof (induction ns arbitrary: acc cursor)
  case Nil
  then show ?case by simp
next
  case (Cons node rest)
  from Cons.prems(1) show ?case
  proof (cases rule: processFileWithCursor_loop_Cons)
    case (1 gapChunks nodeChunks)
    from 1(1) have "list_all (\<lambda>c. tokenCount c = 0) gapChunks"
      using processGapContent_nonpos[OF assms] by (auto split: if_splits)
    moreover from 1(2) have "list_all (\<lambda>c. tokenCount c = 0) nodeChunks"
      by (rule processASTNodeContent_nonpos[OF assms])
    ultimately have "list_all (\<lambda>c. tokenCount c = 0) (acc @ gapChunks @ nodeChunks)"
      using Cons.prems(2) by simp
    from Cons.IH[OF 1(3) this] show ?thesis .
  qed
qed

lemma processFileWithCursor_nonpos:
  assumes "m \<le> 0" and "processFileWithCursor ix fileContent astNodes fp lang m t = Inr cs"
  shows "list_all (\<lambda>c. tokenCount c = 0) cs"
  using assms(2)
proof (cases rule: processFileWithCursor_Inr)
  case (1 acc cursor trailing)
  from processFileWithCursor_loop_nonpos[OF assms(1) 1(1)] have "list_all (\<lambda>c. tokenCount c = 0) acc"
    by simp
  moreover from 1(2) have "list_all (\<lambda>c. tokenCount c = 0) trailing"
    using processGapContent_nonpos[OF assms(1)] by (auto split: if_splits)
  ultimately show ?thesis
    unfolding 1(3) by (auto simp: list_all_iff)
qed

lemma chunkFile_error_class:
  "chunkFile env options = Inl e \<Longrightarrow> error_class e = FileSystemError \<or> error_class e = ParsingError"
  by (auto simp: chunkFile_def split: sum.splits if_splits)

lemma chunkFile_Inr: "chunkFile env options = Inr cs \<longleftrightarrow> chunkFile_try env options = Inr cs"
  by (auto simp: chunkFile_def split: sum.splits if_splits)

lemma chunkFile_nonpos_chunks:
  assumes "co_maxTokens options \<le> 0" and "chunkFile env options = Inr cs"
  shows "list_all (\<lambda>c. tokenCount c = 0) cs"
proof -
  from assms(2) have "chunkFile_try env options = Inr cs"
    by (simp add: chunkFile_Inr)
  then show ?thesis
    using processFileWithCursor_nonpos[OF assms(1)]
    by (auto simp: chunkFile_try_def Let_def split: option.splits sum.splits)
qed

lemma chunkFile_no_nodes:
  assumes cfg: "LANG_CONFIG (extname env (co_filePath options)) = Some cfg"
    and rd: "readFileSync env (co_filePath options) = Inr c"
    and ps: "parse env (language cfg) c = Inr root"
    and tk: "createTokenizer (get_encoding env) (co_modelName options) = Inr t"
    and nn: "collectTreeNodesWithSymbols root (wantedNodes cfg) [] = []"
  shows "chunkFile_try env options =
          (if list_all is_ws c then Inr []
           else case processGapContent (extractImportsExports env) c 1
                  (length (split_on CHR ''\<newline>'' c)) (co_filePath options) (name cfg)
                  (co_maxTokens options) t of
                  Inl e \<Rightarrow> Inl e
                | Inr cs \<Rightarrow> Inr (sort_key startLine cs))"
proof -
  have len: "Suc 0 \<le> length (split_on CHR ''\<newline>'' c)"
    using split_on_nonempty[of "CHR ''\<newline>''" c] by (cases "split_on CHR ''\<newline>'' c") auto
  have j: "join ''\<newline>'' (split_on CHR ''\<newline>'' c) = c"
    by (rule join_split_on)
  have "processFileWithCursor (extractImportsExports env) c [] (co_filePath options) (name cfg)
          (co_maxTokens options) t =
          (if list_all is_ws c then Inr []
           else case processGapContent (extractImportsExports env) c 1
                  (length (split_on CHR ''\<newline>'' c)) (co_filePath options) (name cfg)
                  (co_maxTokens options) t of
                  Inl e \<Rightarrow> Inl e
                | Inr cs \<Rightarrow> Inr (sort_key startLine cs))"
    using len j
    by (auto simp: processFileWithCursor_def sortNodes_def Let_def trim_empty_iff
          split: sum.splits)
  then show ?thesis
    using cfg rd ps tk nn by (simp add: chunkFile_try_def Let_def)
qed

lemma processGapContent_rejects_budget:
  assumes "m \<le> 0" and "\<not> list_all is_ws g" and "countTokens t g = Inr n" and "0 < n"
  shows "processGapContent ix g sl el fp lang m t
           = Inl (Thrown TokenProcessingError ''maxTokens must be greater than 0'')"
  using assms by (auto simp: processGapContent_def splitCode_def trim_empty_iff)

text \<open>The errors that leave the splitter and the file assembler.\<close>

lemma countTokens_Inl: "countTokens t s = Inl e \<Longrightarrow> count_error t e"
  by (auto simp: countTokens_def count_error_def split: if_splits sum.splits)

lemma findBestSplit_parts_Inl:
  "findBestSplit_parts t m d i ps cur = Inl e \<Longrightarrow> count_error t e"
proof (induction ps arbitrary: i cur)
  case Nil
  then show ?case by simp
next
  case (Cons p ps)
  then show ?case
    by (auto simp: Let_def countTokens_Inl split: sum.splits if_splits)
qed

lemma findBestSplit_delims_Inl:
  "findBestSplit_delims str m t ds best = Inl e \<Longrightarrow> count_error t e"
proof (induction ds arbitrary: best)
  case Nil
  then show ?case by simp
next
  case (Cons d ds)
  then show ?case
    by (auto simp: findBestSplit_parts_Inl split: sum.splits)
qed

lemma findCharacterSplit_loop_Inl:
  "findCharacterSplit_loop str m t l r0 b = Inl e \<Longrightarrow> count_error t e"
proof (induction str m t l r0 b rule: findCharacterSplit_loop.induct)
  case (1 str m t l r0 b)
  from "1.prems" have le: "l \<le> r0"
    by (subst (asm) findCharacterSplit_loop.simps) (simp split: if_splits)
  show ?case
  proof (cases "countTokens t (take (nat ((l + r0) div 2)) str)")
    case (Inl e')
    with "1.prems" le have "e' = e"
      by (subst (asm) findCharacterSplit_loop.simps) (simp add: Let_def)
    with Inl show ?thesis
      by (simp add: countTokens_Inl)
  next
    case (Inr n)
    show ?thesis
    proof (cases "int n \<le> m")
      case True
      with "1.prems" le Inr
      have "findCharacterSplit_loop str m t ((l + r0) div 2 + 1) r0 (nat ((l + r0) div 2)) = Inl e"
        by (subst (asm) findCharacterSplit_loop.simps) (simp add: Let_def)
      from "1.IH"(1)[OF le refl Inr True this] show ?thesis .
    next
      case False
      with "1.prems" le Inr
      have "findCharacterSplit_loop str m t l ((l + r0) div 2 - 1) b = Inl e"
        by (subst (asm) findCharacterSplit_loop.simps) (simp add: Let_def)
      from "1.IH"(2)[OF le refl Inr False this] show ?thesis .
    qed
  qed
qed

lemma chooseSplit_Inl: "chooseSplit str m t = Inl e \<Longrightarrow> count_error t e"
  by (auto simp: chooseSplit_def findBestSplit_def findCharacterSplit_def
        findBestSplit_delims_Inl findCharacterSplit_loop_Inl split: sum.splits if_splits)

lemma splitLongLine_loop_Inl:
  "splitLongLine_loop ln m t rem splits = Inl e \<Longrightarrow> count_error t e"
proof (induction ln m t rem splits rule: splitLongLine_loop.induct)
  case (1 ln m t rem splits)
  from "1.prems" have pos: "0 < length rem"
    by (subst (asm) splitLongLine_loop.simps) (simp split: if_splits)
  show ?case
  proof (cases "chooseSplit rem m t")
    case (Inl e')
    with "1.prems" pos have "e' = e"
      by (subst (asm) splitLongLine_loop.simps) simp
    with Inl show ?thesis
      by (simp add: chooseSplit_Inl)
  next
    case bs: (Inr bestSplit)
    show ?thesis
    proof (cases "countTokens t bestSplit")
      case (Inl e')
      with "1.prems" pos bs have "e' = e"
        by (subst (asm) splitLongLine_loop.simps) simp
      with Inl show ?thesis
        by (simp add: countTokens_Inl)
    next
      case (Inr n)
      with "1.prems" pos bs
      have "splitLongLine_loop ln m t (drop (length bestSplit) rem)
              (splits @ [\<lparr>content = bestSplit, startLine = ln, endLine = ln, tokenCount = n\<rparr>])
            = Inl e"
        by (subst (asm) splitLongLine_loop.simps) simp
      from "1.IH"[OF pos bs Inr this] show ?thesis .
    qed
  qed
qed

lemma splitCode_loop_Inl:
  "splitCode_loop t m ls ln splits cc csl ctc = Inl e \<Longrightarrow> count_error t e"
proof (induction ls arbitrary: ln splits cc csl ctc)
  case Nil
  then show ?case by simp
next
  case (Cons line rest)
  then show ?case
    by (auto simp: Let_def splitLongLine_def countTokens_Inl splitLongLine_loop_Inl
          split: if_splits sum.splits)
qed

lemma splitCode_Inl:
  assumes "splitCode \<lparr>sourceCode = src, so_startLine = start, so_maxTokens = m, tokenizer = t\<rparr> = Inl e"
  shows "count_error t e \<or>
         (m \<le> 0 \<and> e = Thrown TokenProcessingError ''maxTokens must be greater than 0'')"
  using assms
  by (auto simp: splitCode_def Let_def splitCode_loop_Inl split: if_splits sum.splits prod.splits)

lemma processGapContent_Inl:
  assumes "processGapContent ix g sl el fp lang m t = Inl e"
  shows "count_error t e \<or>
         (m \<le> 0 \<and> e = Thrown TokenProcessingError ''maxTokens must be greater than 0'')"
  using assms splitCode_Inl[of g sl m t e]
  by (auto simp: processGapContent_def countTokens_Inl split: if_splits sum.splits)

lemma processASTNodeContent_Inl:
  assumes "processASTNodeContent ix node fp lang m t = Inl e"
  shows "count_error t e \<or>
         (m \<le> 0 \<and> e = Thrown TokenProcessingError ''maxTokens must be greater than 0'')"
  using assms splitCode_Inl[of "node_text node" "row (startPosition node) + 1" m t e]
  by (auto simp: processASTNodeContent_def Let_def countTokens_Inl split: if_splits sum.splits)

lemma processFileWithCursor_loop_Cons_Inl:
  assumes "processFileWithCursor_loop ix sourceLines fp lang m t (node # rest) acc cursor = Inl e"
  obtains (gap) "processGapContent ix (gapBefore sourceLines cursor node) cursor
                   (row (startPosition node)) fp lang m t = Inl e"
    | (node) "processASTNodeContent ix node fp lang m t = Inl e"
    | (rest) gapChunks nodeChunks where
        "processFileWithCursor_loop ix sourceLines fp lang m t rest
           (acc @ gapChunks @ nodeChunks) (row (endPosition node) + 2) = Inl e"
  using assms by (auto simp: Let_def gapBefore_def split: sum.splits if_splits)

lemma processFileWithCursor_loop_Inl:
  "processFileWithCursor_loop ix sourceLines fp lang m t ns acc cursor = Inl e \<Longrightarrow>
   count_error t e \<or>
   (m \<le> 0 \<and> e = Thrown TokenProcessingError ''maxTokens must be greater than 0'')"
proof (induction ns arbitrary: acc cursor)
  case Nil
  then show ?case by simp
next
  case (Cons node rest)
  from Cons.prems show ?case
  proof (cases rule: processFileWithCursor_loop_Cons_Inl)
    case gap
    then show ?thesis by (rule processGapContent_Inl)
  next
    case node
    then show ?thesis by (rule processASTNodeContent_Inl)
  next
    case (rest gapChunks nodeChunks)
    then show ?thesis by (rule Cons.IH)
  qed
qed

lemma processFileWithCursor_Inl:
  assumes "processFileWithCursor ix fileContent astNodes fp lang m t = Inl e"
  shows "count_error t e \<or>
         (m \<le> 0 \<and> e = Thrown TokenProcessingError ''maxTokens must be greater than 0'')"
  using assms processFileWithCursor_loop_Inl[of ix "split_on CHR ''\<newline>'' fileContent" fp lang m t
      "sortNodes astNodes" "[]" 1 e]
    processGapContent_Inl[of ix _ _ "length (split_on CHR ''\<newline>'' fileContent)" fp lang m t e]
  by (auto simp: processFileWithCursor_def Let_def split: sum.splits prod.splits if_splits)

text \<open>Success of the cursor loop: every node was processed.\<close>

lemma processFileWithCursor_loop_nodes:
  "processFileWithCursor_loop ix sourceLines fp lang m t ns acc cursor = Inr res \<Longrightarrow>
   list_all (\<lambda>node. fulfilled (processASTNodeContent ix node fp lang m t)) ns"
proof (induction ns arbitrary: acc cursor)
  case Nil
  then show ?case by simp
next
  case (Cons node rest)
  from Cons.prems show ?case
  proof (cases rule: processFileWithCursor_loop_Cons)
    case (1 gapChunks nodeChunks)
    from Cons.IH[OF 1(3)] 1(2) show ?thesis
      by (simp add: fulfilled_def)
  qed
qed

lemma processFileWithCursor_nodes:
  assumes "processFileWithCursor ix fileContent astNodes fp lang m t = Inr cs"
  shows "list_all (\<lambda>node. fulfilled (processASTNodeContent ix node fp lang m t)) astNodes"
  using assms
proof (cases rule: processFileWithCursor_Inr)
  case (1 acc cursor trailing)
  from processFileWithCursor_loop_nodes[OF 1(1)]
  have "\<forall>node \<in> set (sortNodes astNodes). fulfilled (processASTNodeContent ix node fp lang m t)"
    by (simp add: list_all_iff)
  then show ?thesis
    by (simp add: list_all_iff sortNodes_def)
qed

lemma countTokens_ws: "trim s = [] \<Longrightarrow> countTokens t s = Inr 0"
  by (simp add: countTokens_def)

lemma countTokens_pos_not_ws: "countTokens t s = Inr n \<Longrightarrow> 0 < n \<Longrightarrow> trim s \<noteq> [] \<and> s \<noteq> []"
  by (auto simp: countTokens_def split: if_splits)

lemma processASTNodeContent_rejects_budget:
  assumes "m \<le> 0" and "countTokens t (node_text node) = Inr n" and "0 < n"
  shows "processASTNodeContent ix node fp lang m t
           = Inl (Thrown TokenProcessingError ''maxTokens must be greater than 0'')"
  using assms countTokens_pos_not_ws[OF assms(2,3)]
  by (auto simp: processASTNodeContent_def splitCode_def Let_def)

lemma processASTNodeContent_counts:
  assumes "fulfilled (processASTNodeContent ix node fp lang m t)"
  shows "\<exists>n. countTokens t (node_text node) = Inr n \<and> (m \<le> 0 \<longrightarrow> n = 0)"
proof (cases "countTokens t (node_text node)")
  case (Inl e)
  with assms show ?thesis
    by (simp add: processASTNodeContent_def Let_def fulfilled_def)
next
  case (Inr n)
  show ?thesis
  proof (cases "m \<le> 0 \<and> 0 < n")
    case True
    with Inr processASTNodeContent_rejects_budget[of m t node n ix fp lang] assms show ?thesis
      by (simp add: fulfilled_def)
  next
    case False
    with Inr show ?thesis by auto
  qed
qed


section \<open>Properties of the batch run\<close>

lemma fulfilled_simps [simp]: "fulfilled (Inr v)" "\<not> fulfilled (Inl e)"
  by (simp_all add: fulfilled_def)

text \<open>A batch run that continues on errors returns the outcome of every file.\<close>

lemma processFileWithErrorHandling_fileResult:
  "processFileWithErrorHandling env fp \<lparr>co_filePath = fp, co_maxTokens = m, co_modelName = mn\<rparr> True
     = Inr (fileResult env m mn fp)"
  by (simp add: processFileWithErrorHandling_def fileResult_def split: sum.splits)

lemma promise_all_Inr: "promise_all (map (\<lambda>x. Inr (f x)) xs) = Inr (map f xs)"
  by (induction xs) simp_all

lemma pool_loop_results:
  assumes "0 < conc"
  shows "set results \<subseteq> fileResult env m mn ` set seen \<Longrightarrow>
         \<exists>results'.
           processFilesWithConcurrency_loop env m mn conc True fps
               (map (\<lambda>fp. Inr (fileResult env m mn fp)) seen) results
             = Some (Inr (results', map (\<lambda>fp. Inr (fileResult env m mn fp)) (seen @ fps)))
           \<and> set results' \<subseteq> fileResult env m mn ` set (seen @ fps)"
proof (induction fps arbitrary: seen results)
  case Nil
  then show ?case by simp
next
  case (Cons fp fps)
  let ?P = "\<lambda>fp. Inr (fileResult env m mn fp) :: thrown + FileProcessingResult"
  have step: "map ?P seen @ [processFileWithErrorHandling env fp
        \<lparr>co_filePath = fp, co_maxTokens = m, co_modelName = mn\<rparr> True] = map ?P (seen @ [fp])"
    by (simp add: processFileWithErrorHandling_fileResult)
  show ?case
  proof (cases "int (length seen) \<ge> conc")
    case False
    from Cons.prems have "set results \<subseteq> fileResult env m mn ` set (seen @ [fp])"
      by auto
    from Cons.IH[OF this] False step show ?thesis
      by (simp add: Let_def)
  next
    case True
    with assms obtain d ds where d: "seen = d # ds"
      by (cases seen) auto
    from Cons.prems d
    have "set (results @ [fileResult env m mn d]) \<subseteq> fileResult env m mn ` set (seen @ [fp])"
      by auto
    from Cons.IH[OF this] True step d show ?thesis
      by (simp add: Let_def)
  qed
qed

lemma processFilesWithConcurrency_results:
  assumes "0 < conc"
  shows "\<exists>rs. processFilesWithConcurrency env files m mn conc True = Some (Inr rs)
              \<and> set rs = fileResult env m mn ` set files"
proof -
  from pool_loop_results[OF assms, where seen = "[]" and results = "[]" and fps = files
      and env = env and m = m and mn = mn]
  obtain results' where
    l: "processFilesWithConcurrency_loop env m mn conc True files [] []
          = Some (Inr (results', map (\<lambda>fp. Inr (fileResult env m mn fp)) files))"
    and s: "set results' \<subseteq> fileResult env m mn ` set files"
    by auto
  from l have "processFilesWithConcurrency env files m mn conc True
      = Some (Inr (results' @ map (fileResult env m mn) files))"
    by (simp add: processFilesWithConcurrency_def promise_all_Inr)
  moreover from s have "set (results' @ map (fileResult env m mn) files)
      = fileResult env m mn ` set files"
    by auto
  ultimately show ?thesis
    by blast
qed

lemma fr_error_fileResult:
  "fr_error (fileResult env m mn fp) = Some pe \<longleftrightarrow>
     (\<exists>e. chunkFile env \<lparr>co_filePath = fp, co_maxTokens = m, co_modelName = mn\<rparr> = Inl e \<and>
          pe = \<lparr>pe_type = determineErrorType e, pe_filePath = fp,
                 pe_message = message e, recoverable = True\<rparr>)"
  by (cases "chunkFile env \<lparr>co_filePath = fp, co_maxTokens = m, co_modelName = mn\<rparr>")
     (auto simp: fileResult_def)

lemma fr_chunks_fileResult:
  "fr_error (fileResult env m mn fp) = None \<and> c \<in> set (fr_chunks (fileResult env m mn fp)) \<longleftrightarrow>
     (\<exists>cs. chunkFile env \<lparr>co_filePath = fp, co_maxTokens = m, co_modelName = mn\<rparr> = Inr cs \<and>
          c \<in> set cs)"
  by (cases "chunkFile env \<lparr>co_filePath = fp, co_maxTokens = m, co_modelName = mn\<rparr>")
     (auto simp: fileResult_def)

lemma set_errors_aggregate:
  "set (errors (stats (aggregate rs))) = {pe. \<exists>r \<in> set rs. fr_error r = Some pe}"
  by (auto simp: aggregate_def Let_def split: option.splits)

lemma set_chunks_aggregate:
  "set (chunks (aggregate rs)) = {c. \<exists>r \<in> set rs. fr_error r = None \<and> c \<in> set (fr_chunks r)}"
  by (auto simp: aggregate_def Let_def)

lemma batchProcessFiles_outcome:
  assumes coe: "continueOnError options" and conc: "0 < concurrency options"
    and scan: "scanRepository env (rootPath options) (extensions options) (excludePatterns options)
           = Inr files"
  shows "\<exists>res. batchProcessFiles env options = Some (Inr res) \<and>
           set (errors (stats res)) =
             {pe. \<exists>fp \<in> set files. \<exists>e.
                chunkFile env \<lparr>co_filePath = fp, co_maxTokens = bo_maxTokens options,
                               co_modelName = bo_modelName options\<rparr> = Inl e \<and>
                pe = \<lparr>pe_type = determineErrorType e, pe_filePath = fp,
                       pe_message = message e, recoverable = True\<rparr>} \<and>
           set (chunks res) =
             {c. \<exists>fp \<in> set files. \<exists>cs.
                chunkFile env \<lparr>co_filePath = fp, co_maxTokens = bo_maxTokens options,
                               co_modelName = bo_modelName options\<rparr> = Inr cs \<and> c \<in> set cs}"
proof (cases "length files = 0")
  case True
  with scan show ?thesis
    by (simp add: batchProcessFiles_def)
next
  case False
  from processFilesWithConcurrency_results[OF conc]
  obtain rs where rs: "processFilesWithConcurrency env files (bo_maxTokens options)
        (bo_modelName options) (concurrency options) True = Some (Inr rs)"
    and s: "set rs = fileResult env (bo_maxTokens options) (bo_modelName options) ` set files"
    by blast
  from rs coe scan False have b: "batchProcessFiles env options = Some (Inr (aggregate rs))"
    by (simp add: batchProcessFiles_def)
  have e: "set (errors (stats (aggregate rs))) =
             {pe. \<exists>fp \<in> set files. \<exists>e.
                chunkFile env \<lparr>co_filePath = fp, co_maxTokens = bo_maxTokens options,
                               co_modelName = bo_modelName options\<rparr> = Inl e \<and>
                pe = \<lparr>pe_type = determineErrorType e, pe_filePath = fp,
                       pe_message = message e, recoverable = True\<rparr>}"
    unfolding set_errors_aggregate s
    by (simp add: fr_error_fileResult)
  have c: "set (chunks (aggregate rs)) =
             {c. \<exists>fp \<in> set files. \<exists>cs.
                chunkFile env \<lparr>co_filePath = fp, co_maxTokens = bo_maxTokens options,
                               co_modelName = bo_modelName options\<rparr> = Inr cs \<and> c \<in> set cs}"
    unfolding set_chunks_aggregate s
    by (simp add: fr_chunks_fileResult)
  from b e c show ?thesis
    by blast
qed

lemma toLowerCase_append: "toLowerCase (a @ b) = toLowerCase a @ toLowerCase b"
  by (simp add: toLowerCase_def)


text \<open>Failures of \<open>chunkFile\<close> after the file is read and parsed.\<close>

lemma never_throws_no_count_error: "never_throws t \<Longrightarrow> \<not> count_error t e"
  by (auto simp: never_throws_def count_error_def) (metis Inl_Inr_False)

lemma chunkFile_try_tokenizer:
  assumes "LANG_CONFIG (extname env (co_filePath options)) = Some cfg"
    and "readFileSync env (co_filePath options) = Inr c"
    and "parse env (language cfg) c = Inr root"
    and "createTokenizer (get_encoding env) (co_modelName options) = Inr t"
  shows "chunkFile_try env options =
           processFileWithCursor (extractImportsExports env) c
             (collectTreeNodesWithSymbols root (wantedNodes cfg) [])
             (co_filePath options) (name cfg) (co_maxTokens options) t"
  using assms by (simp add: chunkFile_try_def Let_def)


lemma chunkFile_wraps:
  "chunkFile_try env options = Inl (Thrown TokenProcessingError x) \<Longrightarrow>
   chunkFile env options
     = Inl (Thrown ParsingError (''Unexpected error processing '' @ co_filePath options @ '': '' @ x))"
  by (simp add: chunkFile_def)

lemma chunkFile_Inl_try: "chunkFile env options = Inl e \<Longrightarrow> \<exists>e0. chunkFile_try env options = Inl e0"
  by (cases "chunkFile_try env options") (auto simp: chunkFile_def)











lemma chunkFile_nonpos_nodes:
  assumes m: "co_maxTokens options \<le> 0"
    and cfg: "LANG_CONFIG (extname env (co_filePath options)) = Some cfg"
    and rd: "readFileSync env (co_filePath options) = Inr c"
    and ps: "parse env (language cfg) c = Inr root"
    and tk: "createTokenizer (get_encoding env) (co_modelName options) = Inr t"
    and ok: "chunkFile env options = Inr cs"
  shows "list_all (\<lambda>node. countTokens t (node_text node) = Inr 0)
           (collectTreeNodesWithSymbols root (wantedNodes cfg) [])"
proof -
  from ok chunkFile_try_tokenizer[OF cfg rd ps tk]
  have "processFileWithCursor (extractImportsExports env) c
             (collectTreeNodesWithSymbols root (wantedNodes cfg) [])
             (co_filePath options) (name cfg) (co_maxTokens options) t = Inr cs"
    by (simp add: chunkFile_Inr)
  from processFileWithCursor_nodes[OF this] processASTNodeContent_counts m show ?thesis
    unfolding list_all_iff by fastforce
qed

lemma chunkFile_nonpos_failure:
  assumes m: "co_maxTokens options \<le> 0"
    and cfg: "LANG_CONFIG (extname env (co_filePath options)) = Some cfg"
    and rd: "readFileSync env (co_filePath options) = Inr c"
    and ps: "parse env (language cfg) c = Inr root"
    and tk: "createTokenizer (get_encoding env) (co_modelName options) = Inr t"
    and nt: "never_throws t"
    and fl: "chunkFile env options = Inl e"
  shows "e = Thrown ParsingError (''Unexpected error processing '' @ co_filePath options
                         @ '': maxTokens must be greater than 0'')"
proof -
  from chunkFile_Inl_try[OF fl] obtain e0 where e0: "chunkFile_try env options = Inl e0"
    by blast
  with chunkFile_try_tokenizer[OF cfg rd ps tk]
  have "processFileWithCursor (extractImportsExports env) c
             (collectTreeNodesWithSymbols root (wantedNodes cfg) [])
             (co_filePath options) (name cfg) (co_maxTokens options) t = Inl e0"
    by simp
  from processFileWithCursor_Inl[OF this] never_throws_no_count_error[OF nt]
  have "e0 = Thrown TokenProcessingError ''maxTokens must be greater than 0''"
    by blast
  with e0 chunkFile_wraps[of env options "''maxTokens must be greater than 0''"] fl
  show ?thesis
    by simp
qed

lemma processGapContent_rejects_budget_pos:
  assumes "m \<le> 0" and "countTokens t g = Inr n" and "0 < n"
  shows "processGapContent ix g sl el fp lang m t
           = Inl (Thrown TokenProcessingError ''maxTokens must be greater than 0'')"
  using assms countTokens_pos_not_ws[OF assms(2,3)]
  by (simp add: processGapContent_rejects_budget trim_empty_iff)

lemma batch_nonpos_chunks:
  assumes "bo_maxTokens bopts \<le> 0"
    and "set (chunks res) =
             {c. \<exists>fp \<in> set files. \<exists>cs.
                chunkFile env \<lparr>co_filePath = fp, co_maxTokens = bo_maxTokens bopts,
                               co_modelName = bo_modelName bopts\<rparr> = Inr cs \<and> c \<in> set cs}"
  shows "list_all (\<lambda>c. tokenCount c = 0) (chunks res)"
proof -
  have "tokenCount ch = 0" if "ch \<in> set (chunks res)" for ch
  proof -
    from that assms(2) obtain fp cs where
      "chunkFile env \<lparr>co_filePath = fp, co_maxTokens = bo_maxTokens bopts,
                               co_modelName = bo_modelName bopts\<rparr> = Inr cs" and "ch \<in> set cs"
      by blast
    with chunkFile_nonpos_chunks[of "\<lparr>co_filePath = fp, co_maxTokens = bo_maxTokens bopts,
                               co_modelName = bo_modelName bopts\<rparr>" env cs] assms(1)
    show ?thesis
      by (simp add: list_all_iff)
  qed
  then show ?thesis
    by (simp add: list_all_iff)
qed

text \<open>
  C5 (as amended).  Neither \<open>chunkFile\<close> nor \<open>batchProcessFiles\<close> tests the budget
  before it starts.  With \<open>maxTokens \<le> 0\<close>: \<open>chunkFile\<close> fails only with a
  \<open>FileSystemError\<close> or a \<open>ParsingError\<close>, never with a \<open>TokenProcessingError\<close>, and a
  successful call returns only chunks of token count 0.  An unsupported extension gives
  the empty sequence and a file that cannot be read gives a \<open>FileSystemError\<close>.  Only
  the second guard of \<open>splitCode\<close> rejects the budget: on a node or a gap whose text has
  a positive token count, \<open>processASTNodeContent\<close> and \<open>processGapContent\<close> throw the
  \<open>TokenProcessingError\<close> "maxTokens must be greater than 0".  For a file that is read
  and parsed and whose tokenizer is constructed: after a successful call every collected
  node has the token count 0, so one collected node with a positive count makes
  \<open>chunkFile\<close> fail; when the tokenizer never throws, every failure is the
  \<open>ParsingError\<close> "Unexpected error processing <path>: maxTokens must be greater than
  0"; and without collected nodes, a whitespace-only content gives the empty sequence
  and a content with a positive token count gives that \<open>ParsingError\<close>.
  \<open>batchProcessFiles\<close> scans the repository first and throws "Failed to scan
  repository: ..." when the scan fails.  When the scan succeeds, with \<open>continueOnError\<close>
  and a positive concurrency, it returns a result: all its chunks have the token count 0,
  and for every scanned file on which \<open>chunkFile\<close> fails, the error of the file is among
  the recorded errors.
\<close>

theorem chunkFile_nonpositive_budget:
  assumes "co_maxTokens options \<le> 0"
  shows
    "(chunkFile env options = Inl e \<longrightarrow>
        error_class e = FileSystemError \<or> error_class e = ParsingError) \<and>
     (chunkFile env options = Inr cs \<longrightarrow> list_all (\<lambda>c. tokenCount c = 0) cs) \<and>
     (LANG_CONFIG (extname env (co_filePath options)) = None \<longrightarrow> chunkFile env options = Inr []) \<and>
     (LANG_CONFIG (extname env (co_filePath options)) = Some cfg
        \<and> readFileSync env (co_filePath options) = Inl msg \<longrightarrow>
        chunkFile env options
          = Inl (Thrown FileSystemError
                   (''Failed to read file '' @ co_filePath options @ '': '' @ msg))) \<and>
     (countTokens t (node_text node) = Inr k \<and> 0 < k \<longrightarrow>
        processASTNodeContent ix node fp lang (co_maxTokens options) t
          = Inl (Thrown TokenProcessingError ''maxTokens must be greater than 0'')) \<and>
     (countTokens t g = Inr k \<and> 0 < k \<longrightarrow>
        processGapContent ix g sl el fp lang (co_maxTokens options) t
          = Inl (Thrown TokenProcessingError ''maxTokens must be greater than 0'')) \<and>
     (LANG_CONFIG (extname env (co_filePath options)) = Some cfg
        \<and> readFileSync env (co_filePath options) = Inr c
        \<and> parse env (language cfg) c = Inr root
        \<and> createTokenizer (get_encoding env) (co_modelName options) = Inr t \<longrightarrow>
        (chunkFile env options = Inr cs \<longrightarrow>
           list_all (\<lambda>node. countTokens t (node_text node) = Inr 0)
             (collectTreeNodesWithSymbols root (wantedNodes cfg) [])) \<and>
        (never_throws t \<and> chunkFile env options = Inl e \<longrightarrow>
           e = Thrown ParsingError
                 (''Unexpected error processing '' @ co_filePath options
                    @ '': maxTokens must be greater than 0'')) \<and>
        (collectTreeNodesWithSymbols root (wantedNodes cfg) [] = [] \<longrightarrow>
           (list_all is_ws c \<longrightarrow> chunkFile env options = Inr []) \<and>
           (\<not> list_all is_ws c \<and> countTokens t c = Inr n \<and> 0 < n \<longrightarrow>
              chunkFile env options
                = Inl (Thrown ParsingError
                         (''Unexpected error processing '' @ co_filePath options
                            @ '': maxTokens must be greater than 0''))))) \<and>
     (scanRepository env (rootPath bopts) (extensions bopts) (excludePatterns bopts) = Inl msg \<longrightarrow>
        batchProcessFiles env bopts
          = Some (Inl (Thrown PlainError (''Failed to scan repository: '' @ msg)))) \<and>
     (bo_maxTokens bopts \<le> 0 \<and> continueOnError bopts \<and> 0 < concurrency bopts
        \<and> scanRepository env (rootPath bopts) (extensions bopts) (excludePatterns bopts)
            = Inr files \<longrightarrow>
        (\<exists>res. batchProcessFiles env bopts = Some (Inr res) \<and>
           list_all (\<lambda>c. tokenCount c = 0) (chunks res) \<and>
           (\<forall>p \<in> set files. \<forall>e'.
              chunkFile env \<lparr>co_filePath = p, co_maxTokens = bo_maxTokens bopts,
                             co_modelName = bo_modelName bopts\<rparr> = Inl e' \<longrightarrow>
              \<lparr>pe_type = determineErrorType e', pe_filePath = p, pe_message = message e',
               recoverable = True\<rparr> \<in> set (errors (stats res)))))"
proof (intro conjI impI)
  assume "chunkFile env options = Inl e"
  then show "error_class e = FileSystemError \<or> error_class e = ParsingError"
    by (rule chunkFile_error_class)
next
  assume "chunkFile env options = Inr cs"
  with assms show "list_all (\<lambda>c. tokenCount c = 0) cs"
    by (rule chunkFile_nonpos_chunks)
next
  assume "LANG_CONFIG (extname env (co_filePath options)) = None"
  then show "chunkFile env options = Inr []"
    by (simp add: chunkFile_def chunkFile_try_def Let_def)
next
  assume "LANG_CONFIG (extname env (co_filePath options)) = Some cfg
        \<and> readFileSync env (co_filePath options) = Inl msg"
  then show "chunkFile env options
          = Inl (Thrown FileSystemError
                   (''Failed to read file '' @ co_filePath options @ '': '' @ msg))"
    by (simp add: chunkFile_def chunkFile_try_def Let_def)
next
  assume "countTokens t (node_text node) = Inr k \<and> 0 < k"
  with assms show "processASTNodeContent ix node fp lang (co_maxTokens options) t
          = Inl (Thrown TokenProcessingError ''maxTokens must be greater than 0'')"
    by (simp add: processASTNodeContent_rejects_budget)
next
  assume "countTokens t g = Inr k \<and> 0 < k"
  with assms show "processGapContent ix g sl el fp lang (co_maxTokens options) t
          = Inl (Thrown TokenProcessingError ''maxTokens must be greater than 0'')"
    by (simp add: processGapContent_rejects_budget_pos)
next
  assume a: "LANG_CONFIG (extname env (co_filePath options)) = Some cfg
        \<and> readFileSync env (co_filePath options) = Inr c
        \<and> parse env (language cfg) c = Inr root
        \<and> createTokenizer (get_encoding env) (co_modelName options) = Inr t"
  assume "chunkFile env options = Inr cs"
  with a assms show "list_all (\<lambda>node. countTokens t (node_text node) = Inr 0)
             (collectTreeNodesWithSymbols root (wantedNodes cfg) [])"
    using chunkFile_nonpos_nodes by blast
next
  assume a: "LANG_CONFIG (extname env (co_filePath options)) = Some cfg
        \<and> readFileSync env (co_filePath options) = Inr c
        \<and> parse env (language cfg) c = Inr root
        \<and> createTokenizer (get_encoding env) (co_modelName options) = Inr t"
  assume "never_throws t \<and> chunkFile env options = Inl e"
  with a assms show "e = Thrown ParsingError
                 (''Unexpected error processing '' @ co_filePath options
                    @ '': maxTokens must be greater than 0'')"
    using chunkFile_nonpos_failure by blast
next
  assume a: "LANG_CONFIG (extname env (co_filePath options)) = Some cfg
        \<and> readFileSync env (co_filePath options) = Inr c
        \<and> parse env (language cfg) c = Inr root
        \<and> createTokenizer (get_encoding env) (co_modelName options) = Inr t"
  assume nn: "collectTreeNodesWithSymbols root (wantedNodes cfg) [] = []"
  assume "list_all is_ws c"
  with a nn show "chunkFile env options = Inr []"
    by (simp add: chunkFile_def chunkFile_no_nodes)
next
  assume a: "LANG_CONFIG (extname env (co_filePath options)) = Some cfg
        \<and> readFileSync env (co_filePath options) = Inr c
        \<and> parse env (language cfg) c = Inr root
        \<and> createTokenizer (get_encoding env) (co_modelName options) = Inr t"
  assume nn: "collectTreeNodesWithSymbols root (wantedNodes cfg) [] = []"
  assume b: "\<not> list_all is_ws c \<and> countTokens t c = Inr n \<and> 0 < n"
  then have "processGapContent (extractImportsExports env) c 1
      (length (split_on CHR ''\<newline>'' c)) (co_filePath options) (name cfg)
      (co_maxTokens options) t
      = Inl (Thrown TokenProcessingError ''maxTokens must be greater than 0'')"
    using assms by (simp add: processGapContent_rejects_budget)
  with a nn b show "chunkFile env options
             = Inl (Thrown ParsingError
                      (''Unexpected error processing '' @ co_filePath options
                         @ '': maxTokens must be greater than 0''))"
    by (simp add: chunkFile_def chunkFile_no_nodes)
next
  assume "scanRepository env (rootPath bopts) (extensions bopts) (excludePatterns bopts) = Inl msg"
  then show "batchProcessFiles env bopts
          = Some (Inl (Thrown PlainError (''Failed to scan repository: '' @ msg)))"
    by (simp add: batchProcessFiles_def)
next
  assume a: "bo_maxTokens bopts \<le> 0 \<and> continueOnError bopts \<and> 0 < concurrency bopts
        \<and> scanRepository env (rootPath bopts) (extensions bopts) (excludePatterns bopts)
            = Inr files"
  then have m: "bo_maxTokens bopts \<le> 0" and coe: "continueOnError bopts"
    and conc: "0 < concurrency bopts"
    and scan: "scanRepository env (rootPath bopts) (extensions bopts) (excludePatterns bopts)
            = Inr files"
    by simp_all
  from batchProcessFiles_outcome[OF coe conc scan]
  obtain res where r: "batchProcessFiles env bopts = Some (Inr res)"
    and es: "set (errors (stats res)) =
             {pe. \<exists>fp \<in> set files. \<exists>e.
                chunkFile env \<lparr>co_filePath = fp, co_maxTokens = bo_maxTokens bopts,
                               co_modelName = bo_modelName bopts\<rparr> = Inl e \<and>
                pe = \<lparr>pe_type = determineErrorType e, pe_filePath = fp,
                       pe_message = message e, recoverable = True\<rparr>}"
    and cs: "set (chunks res) =
             {c. \<exists>fp \<in> set files. \<exists>cs.
                chunkFile env \<lparr>co_filePath = fp, co_maxTokens = bo_maxTokens bopts,
                               co_modelName = bo_modelName bopts\<rparr> = Inr cs \<and> c \<in> set cs}"
    by blast
  have z: "list_all (\<lambda>c. tokenCount c = 0) (chunks res)"
    using m cs by (rule batch_nonpos_chunks)
  have "\<forall>p \<in> set files. \<forall>e'.
              chunkFile env \<lparr>co_filePath = p, co_maxTokens = bo_maxTokens bopts,
                             co_modelName = bo_modelName bopts\<rparr> = Inl e' \<longrightarrow>
              \<lparr>pe_type = determineErrorType e', pe_filePath = p, pe_message = message e',
               recoverable = True\<rparr> \<in> set (errors (stats res))"
    unfolding es by blast
  with r z show "\<exists>res. batchProcessFiles env bopts = Some (Inr res) \<and>
           list_all (\<lambda>c. tokenCount c = 0) (chunks res) \<and>
           (\<forall>p \<in> set files. \<forall>e'.
              chunkFile env \<lparr>co_filePath = p, co_maxTokens = bo_maxTokens bopts,
                             co_modelName = bo_modelName bopts\<rparr> = Inl e' \<longrightarrow>
              \<lparr>pe_type = determineErrorType e', pe_filePath = p, pe_message = message e',
               recoverable = True\<rparr> \<in> set (errors (stats res)))"
    by blast
qed


theorem chunkFile_nonpositive_budget_witness:
  "(0::int) \<le> 0 \<and>
   chunkFile (exampleEnv [(''a.ts'', ''x''), (''b.ts'', ''  '')] programNode (encoding charTokenizer))
     \<lparr>co_filePath = ''a.ts'', co_maxTokens = 0, co_modelName = ''gpt-4''\<rparr>
     = Inl (Thrown ParsingError
         ''Unexpected error processing a.ts: maxTokens must be greater than 0'') \<and>
   chunkFile (exampleEnv [(''a.ts'', ''x''), (''b.ts'', ''  '')] programNode (encoding charTokenizer))
     \<lparr>co_filePath = ''b.ts'', co_maxTokens = 0, co_modelName = ''gpt-4''\<rparr>
     = Inr [] \<and>
   never_throws \<lparr>encoding = encoding charTokenizer, modelName = ''gpt-4''\<rparr> \<and>
   list_ex (\<lambda>node. countTokens \<lparr>encoding = encoding charTokenizer, modelName = ''gpt-4''\<rparr>
                     (node_text node) = Inr 3)
     (collectTreeNodesWithSymbols (functionProgram ''f()'') (wantedNodes tsConfig) []) \<and>
   chunkFile (exampleEnv [(''f.ts'', ''f()'')] functionProgram (encoding charTokenizer))
     \<lparr>co_filePath = ''f.ts'', co_maxTokens = 0, co_modelName = ''gpt-4''\<rparr>
     = Inl (Thrown ParsingError
         ''Unexpected error processing f.ts: maxTokens must be greater than 0'') \<and>
   (\<exists>res. batchProcessFiles
       (exampleEnv [(''a.ts'', ''x''), (''b.ts'', ''  '')] programNode (encoding charTokenizer))
       \<lparr>rootPath = ''.'', bo_maxTokens = 0, bo_modelName = ''gpt-4'', concurrency = 1,
        extensions = [''.ts''], excludePatterns = [], continueOnError = True\<rparr> = Some (Inr res) \<and>
      list_all (\<lambda>c. tokenCount c = 0) (chunks res) \<and>
      list_ex (\<lambda>pe. pe = \<lparr>pe_type = token_processing, pe_filePath = ''a.ts'',
            pe_message = ''Unexpected error processing a.ts: maxTokens must be greater than 0'',
            recoverable = True\<rparr>) (errors (stats res)))"
proof -
  let ?E = "exampleEnv [(''a.ts'', ''x''), (''b.ts'', ''  '')] programNode (encoding charTokenizer)"
  let ?F = "exampleEnv [(''f.ts'', ''f()'')] functionProgram (encoding charTokenizer)"
  let ?t = "\<lparr>encoding = encoding charTokenizer, modelName = ''gpt-4''\<rparr>"
  let ?oa = "\<lparr>co_filePath = ''a.ts'', co_maxTokens = 0, co_modelName = ''gpt-4''\<rparr>"
  let ?ob = "\<lparr>co_filePath = ''b.ts'', co_maxTokens = 0, co_modelName = ''gpt-4''\<rparr>"
  let ?of = "\<lparr>co_filePath = ''f.ts'', co_maxTokens = 0, co_modelName = ''gpt-4''\<rparr>"
  let ?bo = "\<lparr>rootPath = ''.'', bo_maxTokens = 0, bo_modelName = ''gpt-4'', concurrency = 1,
        extensions = [''.ts''], excludePatterns = [], continueOnError = True\<rparr>"
  let ?budget = "''Unexpected error processing a.ts: maxTokens must be greater than 0''"
  have le: "co_maxTokens ?oa \<le> 0" "co_maxTokens ?ob \<le> 0" "co_maxTokens ?of \<le> 0"
    by simp_all
  have nt: "never_throws ?t"
    by (simp add: never_throws_def charTokenizer_def)
  have ctxa: "LANG_CONFIG (extname ?E (co_filePath ?oa)) = Some tsConfig
        \<and> readFileSync ?E (co_filePath ?oa) = Inr ''x''
        \<and> parse ?E (language tsConfig) ''x'' = Inr (programNode ''x'')
        \<and> createTokenizer (get_encoding ?E) (co_modelName ?oa) = Inr ?t"
    by (simp add: env_defs)
  have nna: "collectTreeNodesWithSymbols (programNode ''x'') (wantedNodes tsConfig) [] = []"
    by (simp add: env_defs)
  have cta: "\<not> list_all is_ws ''x'' \<and> countTokens ?t ''x'' = Inr 1 \<and> 0 < (1::nat)"
    by (simp add: eval_defs)
  note fa = chunkFile_nonpositive_budget[OF le(1), where env = ?E and cfg = tsConfig
      and c = "''x''" and root = "programNode ''x''" and t = ?t and n = 1,
      THEN conjunct2, THEN conjunct2, THEN conjunct2, THEN conjunct2, THEN conjunct2,
      THEN conjunct2, THEN conjunct1, THEN mp, OF ctxa]
  from fa[THEN conjunct2, THEN conjunct2, THEN mp, OF nna, THEN conjunct2, THEN mp, OF cta]
  have 1: "chunkFile ?E ?oa = Inl (Thrown ParsingError ?budget)"
    by simp
  have ctxb: "LANG_CONFIG (extname ?E (co_filePath ?ob)) = Some tsConfig
        \<and> readFileSync ?E (co_filePath ?ob) = Inr ''  ''
        \<and> parse ?E (language tsConfig) ''  '' = Inr (programNode ''  '')
        \<and> createTokenizer (get_encoding ?E) (co_modelName ?ob) = Inr ?t"
    by (simp add: env_defs)
  have nnb: "collectTreeNodesWithSymbols (programNode ''  '') (wantedNodes tsConfig) [] = []"
    by (simp add: env_defs)
  have wsb: "list_all is_ws ''  ''"
    by (simp add: is_ws_def)
  note fb = chunkFile_nonpositive_budget[OF le(2), where env = ?E and cfg = tsConfig
      and c = "''  ''" and root = "programNode ''  ''" and t = ?t,
      THEN conjunct2, THEN conjunct2, THEN conjunct2, THEN conjunct2, THEN conjunct2,
      THEN conjunct2, THEN conjunct1, THEN mp, OF ctxb]
  note 2 = fb[THEN conjunct2, THEN conjunct2, THEN mp, OF nnb, THEN conjunct1, THEN mp, OF wsb]
  have ctxf: "LANG_CONFIG (extname ?F (co_filePath ?of)) = Some tsConfig
        \<and> readFileSync ?F (co_filePath ?of) = Inr ''f()''
        \<and> parse ?F (language tsConfig) ''f()'' = Inr (functionProgram ''f()'')
        \<and> createTokenizer (get_encoding ?F) (co_modelName ?of) = Inr ?t"
    by (simp add: env_defs)
  have nd: "list_ex (\<lambda>node. countTokens ?t (node_text node) = Inr 3)
     (collectTreeNodesWithSymbols (functionProgram ''f()'') (wantedNodes tsConfig) [])"
    by (simp add: env_defs eval_defs functionProgram_def)
  have 3: "chunkFile ?F ?of = Inl (Thrown ParsingError
         ''Unexpected error processing f.ts: maxTokens must be greater than 0'')"
  proof (cases "chunkFile ?F ?of")
    case (Inr cs)
    note ff = chunkFile_nonpositive_budget[OF le(3), where env = ?F and cfg = tsConfig
      and c = "''f()''" and root = "functionProgram ''f()''" and t = ?t and cs = cs,
      THEN conjunct2, THEN conjunct2, THEN conjunct2, THEN conjunct2, THEN conjunct2,
      THEN conjunct2, THEN conjunct1, THEN mp, OF ctxf]
    from ff[THEN conjunct1, THEN mp, OF Inr] nd show ?thesis
      by (auto simp: list_all_iff list_ex_iff)
  next
    case (Inl e)
    note ff = chunkFile_nonpositive_budget[OF le(3), where env = ?F and cfg = tsConfig
      and c = "''f()''" and root = "functionProgram ''f()''" and t = ?t and e = e,
      THEN conjunct2, THEN conjunct2, THEN conjunct2, THEN conjunct2, THEN conjunct2,
      THEN conjunct2, THEN conjunct1, THEN mp, OF ctxf]
    from ff[THEN conjunct2, THEN conjunct1, THEN mp, OF conjI, OF nt Inl] Inl show ?thesis
      by simp
  qed
  have ctxs: "bo_maxTokens ?bo \<le> 0 \<and> continueOnError ?bo \<and> 0 < concurrency ?bo
        \<and> scanRepository ?E (rootPath ?bo) (extensions ?bo) (excludePatterns ?bo)
            = Inr [''a.ts'', ''b.ts'']"
    by (simp add: env_defs)
  note fs = chunkFile_nonpositive_budget[OF le(1), where env = ?E and bopts = ?bo
      and files = "[''a.ts'', ''b.ts'']",
      THEN conjunct2, THEN conjunct2, THEN conjunct2, THEN conjunct2, THEN conjunct2,
      THEN conjunct2, THEN conjunct2, THEN conjunct2, THEN mp, OF ctxs]
  then obtain res where r: "batchProcessFiles ?E ?bo = Some (Inr res)"
    and z: "list_all (\<lambda>c. tokenCount c = 0) (chunks res)"
    and es: "\<forall>p \<in> set [''a.ts'', ''b.ts'']. \<forall>e'.
              chunkFile ?E \<lparr>co_filePath = p, co_maxTokens = bo_maxTokens ?bo,
                             co_modelName = bo_modelName ?bo\<rparr> = Inl e' \<longrightarrow>
              \<lparr>pe_type = determineErrorType e', pe_filePath = p, pe_message = message e',
               recoverable = True\<rparr> \<in> set (errors (stats res))"
    by (elim exE conjE)
  have dt: "determineErrorType (Thrown ParsingError ?budget) = token_processing"
    by (simp add: determineErrorType_def Let_def toLowerCase_def to_lower_def str_includes_def
          sublist_code)
  from es[THEN bspec, of "''a.ts''", THEN spec, of "Thrown ParsingError ?budget"] 1
  have "\<lparr>pe_type = token_processing, pe_filePath = ''a.ts'', pe_message = ?budget,
               recoverable = True\<rparr> \<in> set (errors (stats res))"
    by (simp add: dt)
  then have "list_ex (\<lambda>pe. pe = \<lparr>pe_type = token_processing, pe_filePath = ''a.ts'',
            pe_message = ?budget, recoverable = True\<rparr>) (errors (stats res))"
    by (simp add: list_ex_iff)
  with r z have 4: "\<exists>res. batchProcessFiles ?E ?bo = Some (Inr res) \<and>
      list_all (\<lambda>c. tokenCount c = 0) (chunks res) \<and>
      list_ex (\<lambda>pe. pe = \<lparr>pe_type = token_processing, pe_filePath = ''a.ts'',
            pe_message = ?budget, recoverable = True\<rparr>) (errors (stats res))"
    by blast
  have 0: "(0::int) \<le> 0"
    by simp
  from 0 1 2 nt nd 3 4 show ?thesis
    by (simp only: simp_thms)
qed

text \<open>
  The claim C5 as stated fails.  With the budget 0, a file of whitespace is chunked without
  any error; a missing file is reported as a \<open>FileSystemError\<close>, so the file is read
  before any test of the budget; a file with code fails with a \<open>ParsingError\<close>, not a
  \<open>TokenProcessingError\<close>; and the batch run raises nothing: it returns its statistics,
  with the failure of the one file among the errors.
\<close>

theorem chunkFile_zero_budget_not_rejected:
  "chunkFile (exampleEnv [(''a.ts'', ''x''), (''b.ts'', ''  '')] programNode (encoding charTokenizer))
     \<lparr>co_filePath = ''b.ts'', co_maxTokens = 0, co_modelName = ''gpt-4''\<rparr> = Inr [] \<and>
   chunkFile (exampleEnv [(''a.ts'', ''x''), (''b.ts'', ''  '')] programNode (encoding charTokenizer))
     \<lparr>co_filePath = ''c.ts'', co_maxTokens = 0, co_modelName = ''gpt-4''\<rparr>
     = Inl (Thrown FileSystemError
         ''Failed to read file c.ts: ENOENT: no such file or directory, open c.ts'') \<and>
   chunkFile (exampleEnv [(''a.ts'', ''x''), (''b.ts'', ''  '')] programNode (encoding charTokenizer))
     \<lparr>co_filePath = ''a.ts'', co_maxTokens = 0, co_modelName = ''gpt-4''\<rparr>
     = Inl (Thrown ParsingError
         ''Unexpected error processing a.ts: maxTokens must be greater than 0'') \<and>
   batchProcessFiles
     (exampleEnv [(''a.ts'', ''x''), (''b.ts'', ''  '')] programNode (encoding charTokenizer))
     \<lparr>rootPath = ''.'', bo_maxTokens = 0, bo_modelName = ''gpt-4'', concurrency = 4,
      extensions = [''.ts''], excludePatterns = [], continueOnError = True\<rparr>
     = Some (Inr \<lparr>stats = \<lparr>filesProcessed = 1, chunksCreated = 0,
          errors = [\<lparr>pe_type = token_processing, pe_filePath = ''a.ts'',
            pe_message = ''Unexpected error processing a.ts: maxTokens must be greater than 0'',
            recoverable = True\<rparr>]\<rparr>, chunks = []\<rparr>)"
  by (simp add: env_defs eval_defs batch_defs)






section \<open>The order of the batch output\<close>

lemma filePath_gapMetadata [simp]: "filePath (gapMetadata ix g sl el fp lang) = fp"
  by (simp add: gapMetadata_def split: prod.splits)

lemma filePath_nodeMetadata [simp]: "filePath (nodeMetadata ix node fp lang) = fp"
  by (simp add: nodeMetadata_def split: prod.splits)



















section \<open>Coverage of the lines of a file\<close>

lemma covered_append: "covered (xs @ ys) l \<longleftrightarrow> covered xs l \<or> covered ys l"
  by (auto simp: covered_def list_ex_iff)

lemma is_ws_newline: "is_ws CHR ''\<newline>''"
  by (simp add: is_ws_def)

lemma blank_join: "blank (join ''\<newline>'' ls) \<longleftrightarrow> list_all blank ls"
  by (induction "''\<newline>''" ls rule: join.induct) (auto simp: blank_def is_ws_newline)

lemma trim_blank: "trim s = [] \<longleftrightarrow> blank s"
  by (simp add: blank_def trim_empty_iff)

lemma loop_inv_weaken:
  "loop_inv lo P ln splits cc csl \<Longrightarrow> (\<And>k. Q k \<Longrightarrow> P k) \<Longrightarrow> loop_inv lo Q ln splits cc csl"
  unfolding loop_inv_def by blast

lemma loop_inv_flush:
  assumes "loop_inv lo P ln splits cc csl" and "cc \<noteq> []"
  shows "loop_inv lo P ln (flushChunk splits cc csl (ln - 1) ctc) [] ln"
proof (cases "blank (join ''\<newline>'' cc)")
  case True
  then have f: "flushChunk splits cc csl (ln - 1) ctc = splits"
    using assms(2) by (simp add: flushChunk_def Let_def trim_blank)
  from True have "list_all blank cc"
    by (simp add: blank_join)
  with assms(1) show ?thesis
    unfolding f loop_inv_def by auto
next
  case False
  then have f: "flushChunk splits cc csl (ln - 1) ctc
      = splits @ [\<lparr>content = join ''\<newline>'' cc, startLine = csl, endLine = ln - 1, tokenCount = ctc\<rparr>]"
    using assms(2) by (simp add: flushChunk_def Let_def trim_blank)
  from assms have len: "csl + length cc = ln"
    by (simp add: loop_inv_def)
  with assms(2) have le: "csl \<le> ln - 1" and lt: "ln - 1 < ln"
    by (cases cc; auto)+
  have sw: "sorted_wrt before (map span splits @ [(csl, ln - 1)])"
    using assms(1) by (auto simp: loop_inv_def sorted_wrt_append before_def)
  have cov: "covered (map span splits @ [(csl, ln - 1)]) k"
    if "covered (map span splits) k \<or> (csl \<le> k \<and> k < ln)" for k
    using that by (auto simp: covered_append covered_def)
  show ?thesis
    unfolding f loop_inv_def using assms(1) sw cov le lt
    by (auto simp: loop_inv_def span_def)
qed

lemma loop_inv_empty_buffer:
  "loop_inv lo P ln splits [] csl \<Longrightarrow> csl = ln \<and> (\<forall>k. P k \<longrightarrow> covered (map span splits) k)"
  by (auto simp: loop_inv_def)

lemma loop_inv_fragments:
  assumes "loop_inv lo P ln splits [] ln" and "frs \<noteq> []"
    and "\<forall>s \<in> set frs. startLine s = ln \<and> endLine s = ln"
  shows "loop_inv lo (\<lambda>k. P k \<or> k = ln) (ln + 1) (splits @ frs) [] (ln + 1)"
proof -
  from assms(3) have sp: "\<forall>a \<in> set (map span frs). a = (ln, ln)"
    by (auto simp: span_def)
  then have "sorted_wrt before (map span frs)"
    by (auto simp: sorted_wrt_iff_nth_less before_def)
  with assms(1) sp have sw: "sorted_wrt before (map span (splits @ frs))"
    by (auto simp: loop_inv_def sorted_wrt_append before_def)
  from assms(2) sp have "covered (map span frs) ln"
    by (cases frs) (auto simp: covered_def)
  with assms(1) sp sw show ?thesis
    by (auto simp: loop_inv_def covered_append)
qed

lemma loop_inv_start_buffer:
  assumes "loop_inv lo P ln splits [] ln" and "\<not> blank line"
  shows "loop_inv lo (\<lambda>k. P k \<or> k = ln) (ln + 1) splits [line] ln"
  using assms by (auto simp: loop_inv_def)

lemma loop_inv_push:
  assumes "loop_inv lo P ln splits cc csl"
  shows "loop_inv lo (\<lambda>k. P k \<or> (k = ln \<and> \<not> blank line)) (ln + 1) splits (cc @ [line]) csl"
  using assms by (auto simp: loop_inv_def)


lemma loop_inv_rest:
  assumes ih: "loop_inv lo (\<lambda>k. P1 k \<or> (\<exists>i<length rest. k = Suc ln + i \<and> \<not> blank (rest ! i)))
                 (Suc ln + length rest) s' c' l'"
    and p1: "\<And>k. P k \<or> (k = ln \<and> \<not> blank line) \<Longrightarrow> P1 k"
  shows "loop_inv lo (\<lambda>k. P k \<or> (\<exists>i<length (line # rest). k = ln + i
                          \<and> \<not> blank ((line # rest) ! i)))
           (ln + length (line # rest)) s' c' l'"
proof -
  have "P1 k \<or> (\<exists>i<length rest. k = Suc ln + i \<and> \<not> blank (rest ! i))"
    if "P k \<or> (\<exists>i<length (line # rest). k = ln + i \<and> \<not> blank ((line # rest) ! i))" for k
  proof -
    from that consider "P k" | i where "i < length (line # rest)" "k = ln + i"
        "\<not> blank ((line # rest) ! i)"
      by blast
    then show ?thesis
    proof cases
      case 1
      then show ?thesis using p1 by blast
    next
      case (2 i)
      show ?thesis
      proof (cases i)
        case 0
        with 2 show ?thesis using p1 by simp
      next
        case (Suc j)
        with 2 show ?thesis by auto
      qed
    qed
  qed
  from loop_inv_weaken[OF ih this] show ?thesis
    by simp
qed

lemma splitLongLine_fragments:
  assumes "splitLongLine line ln m t = Inr frs" and "line \<noteq> []"
  shows "frs \<noteq> [] \<and> (\<forall>s \<in> set frs. startLine s = ln \<and> endLine s = ln)"
proof -
  from splitLongLine_loop_sound[OF assms(1)[unfolded splitLongLine_def]]
  have c: "concat (map content frs) = line" and l: "\<forall>s \<in> set frs. startLine s = ln \<and> endLine s = ln"
    by simp_all
  from c assms(2) have "frs \<noteq> []"
    by auto
  with l show ?thesis by blast
qed

lemma not_blank_nonempty: "\<not> blank s \<Longrightarrow> s \<noteq> []"
  by (auto simp: blank_def)

lemma splitCode_loop_inv:
  assumes "splitCode_loop t m ls ln splits cc csl ctc = Inr (splits', cc', csl', ctc')"
    and "loop_inv lo P ln splits cc csl"
  shows "loop_inv lo (\<lambda>k. P k \<or> (\<exists>i<length ls. k = ln + i \<and> \<not> blank (ls ! i)))
           (ln + length ls) splits' cc' csl'"
  using assms
proof (induction ls arbitrary: ln splits cc csl ctc P)
  case Nil
  then show ?case by simp
next
  case (Cons line rest)
  note run = Cons.prems(1) and inv = Cons.prems(2)
  show ?case
  proof (cases "blank line")
    case True
    with run have r: "splitCode_loop t m rest (Suc ln) splits (cc @ [line]) csl ctc
        = Inr (splits', cc', csl', ctc')"
      by (simp add: trim_blank)
    from loop_inv_push[OF inv, of line]
    have "loop_inv lo (\<lambda>k. P k \<or> (k = ln \<and> \<not> blank line)) (Suc ln) splits (cc @ [line]) csl"
      by simp
    from Cons.IH[OF r this] show ?thesis
      by (rule loop_inv_rest) blast
  next
    case nb: False
    then have ne: "line \<noteq> []"
      by (rule not_blank_nonempty)
    from run nb obtain lt where lt: "countTokens t line = Inr lt"
      by (cases "countTokens t line") (auto simp: trim_blank)
    show ?thesis
    proof (cases "int lt > m")
      case True
      with run nb lt obtain frs where frs: "splitLongLine line ln m t = Inr frs"
        by (cases "splitLongLine line ln m t") (auto simp: trim_blank)
      from splitLongLine_fragments[OF frs ne]
      have f1: "frs \<noteq> []" and f2: "\<forall>s \<in> set frs. startLine s = ln \<and> endLine s = ln"
        by blast+
      show ?thesis
      proof (cases "cc = []")
        case True
        with run nb lt \<open>int lt > m\<close> frs
        have r: "splitCode_loop t m rest (Suc ln) (splits @ frs) [] (Suc ln) ctc
            = Inr (splits', cc', csl', ctc')"
          by (simp add: trim_blank)
        from inv True have "loop_inv lo P ln splits [] ln"
          using loop_inv_empty_buffer by blast
        from loop_inv_fragments[OF this f1 f2]
        have "loop_inv lo (\<lambda>k. P k \<or> k = ln) (Suc ln) (splits @ frs) [] (Suc ln)"
          by simp
        from Cons.IH[OF r this] show ?thesis
          by (rule loop_inv_rest) blast
      next
        case False
        with run nb lt \<open>int lt > m\<close> frs
        have r: "splitCode_loop t m rest (Suc ln)
            (flushChunk splits cc csl (ln - 1) ctc @ frs) [] (Suc ln) 0
            = Inr (splits', cc', csl', ctc')"
          by (simp add: trim_blank)
        from loop_inv_fragments[OF loop_inv_flush[OF inv False] f1 f2]
        have "loop_inv lo (\<lambda>k. P k \<or> k = ln) (Suc ln)
            (flushChunk splits cc csl (ln - 1) ctc @ frs) [] (Suc ln)"
          by simp
        from Cons.IH[OF r this] show ?thesis
          by (rule loop_inv_rest) blast
      qed
    next
      case le: False
      show ?thesis
      proof (cases "int (ctc + lt) > m \<and> cc \<noteq> []")
        case True
        with run nb lt le
        have r: "splitCode_loop t m rest (Suc ln) (flushChunk splits cc csl (ln - 1) ctc)
            [line] ln lt = Inr (splits', cc', csl', ctc')"
          by (simp add: trim_blank Let_def)
        from True have "cc \<noteq> []" by simp
        from loop_inv_start_buffer[OF loop_inv_flush[OF inv this] nb]
        have "loop_inv lo (\<lambda>k. P k \<or> k = ln) (Suc ln) (flushChunk splits cc csl (ln - 1) ctc)
            [line] ln"
          by simp
        from Cons.IH[OF r this] show ?thesis
          by (rule loop_inv_rest) blast
      next
        case False
        with run nb lt le
        have r: "splitCode_loop t m rest (Suc ln) splits (cc @ [line]) csl (ctc + lt)
            = Inr (splits', cc', csl', ctc')"
          by (auto simp: trim_blank Let_def)
        from loop_inv_push[OF inv, of line]
        have "loop_inv lo (\<lambda>k. P k \<or> (k = ln \<and> \<not> blank line)) (Suc ln) splits (cc @ [line]) csl"
          by simp
        from Cons.IH[OF r this] show ?thesis
          by (rule loop_inv_rest) blast
      qed
    qed
  qed
qed

lemma splitCode_unit_ok:
  assumes "splitCode \<lparr>sourceCode = src, so_startLine = start, so_maxTokens = m, tokenizer = t\<rparr>
             = Inr ss"
  shows "unit_ok start (start + length (split_on CHR ''\<newline>'' src) - 1)
           (split_on CHR ''\<newline>'' src) (map span ss)"
proof (cases "blank src")
  case True
  with assms have "ss = []"
    by (auto simp: splitCode_def trim_blank)
  moreover from True have "list_all blank (split_on CHR ''\<newline>'' src)"
    using blank_join[of "split_on CHR ''\<newline>'' src"] by (simp add: join_split_on)
  ultimately show ?thesis
    by (auto simp: unit_ok_def list_all_length)
next
  case False
  let ?ls = "split_on CHR ''\<newline>'' src"
  from False have ne: "src \<noteq> []" and nt: "trim src \<noteq> []"
    by (auto simp: trim_blank blank_def)
  with assms have mpos: "\<not> m \<le> 0"
    by (auto simp: splitCode_def)
  obtain r where r: "splitCode_loop t m ?ls start [] [] start 0 = Inr r"
    using assms ne nt mpos
    by (cases "splitCode_loop t m ?ls start [] [] start 0") (simp_all add: splitCode_def)
  obtain splits' cc' csl' ctc' where r4: "r = (splits', cc', csl', ctc')"
    by (cases r) auto
  from r r4 have run: "splitCode_loop t m ?ls start [] [] start 0 = Inr (splits', cc', csl', ctc')"
    by simp
  from assms ne nt mpos run
  have ss: "ss = (if length cc' > 0
                   then flushChunk splits' cc' csl' (start + length ?ls - 1) ctc' else splits')"
    by (simp add: splitCode_def split: if_splits)
  have "loop_inv start (\<lambda>k. False) start [] [] start"
    by (simp add: loop_inv_def)
  from splitCode_loop_inv[OF run this]
  have inv: "loop_inv start (\<lambda>k. \<exists>i<length ?ls. k = start + i \<and> \<not> blank (?ls ! i))
      (start + length ?ls) splits' cc' csl'"
    by simp
  have fin: "loop_inv start (\<lambda>k. \<exists>i<length ?ls. k = start + i \<and> \<not> blank (?ls ! i))
      (start + length ?ls) ss [] (start + length ?ls)"
  proof (cases "cc' = []")
    case True
    with inv ss show ?thesis
      using loop_inv_empty_buffer[of start _ "start + length ?ls" splits' csl'] by auto
  next
    case False
    with loop_inv_flush[OF inv False, of ctc'] ss show ?thesis
      by simp
  qed
  have pos: "0 < length ?ls"
    using split_on_nonempty[of "CHR ''\<newline>''" src] by simp
  from fin pos show ?thesis
    unfolding unit_ok_def loop_inv_def
    by (auto simp: list_all_iff inside_def)
qed


lemma split_on_no_delim: "\<forall>l \<in> set (split_on d s). d \<notin> set l"
proof (induction s)
  case Nil
  then show ?case by simp
next
  case (Cons c cs)
  obtain p ps where ps: "split_on d cs = p # ps"
    using split_on_nonempty by (cases "split_on d cs") auto
  with Cons show ?case
    by auto
qed

lemma split_on_no_delim_text: "d \<notin> set s \<Longrightarrow> split_on d s = [s]"
  by (induction s) auto

lemma split_on_append_delim:
  "d \<notin> set a \<Longrightarrow> split_on d (a @ d # s) = a # split_on d s"
  by (induction a) auto

lemma split_on_join:
  "ls \<noteq> [] \<Longrightarrow> \<forall>l \<in> set ls. d \<notin> set l \<Longrightarrow> split_on d (join [d] ls) = ls"
proof (induction "[d]" ls rule: join.induct)
  case 1
  then show ?case by simp
next
  case (2 x)
  then show ?case by (simp add: split_on_no_delim_text)
next
  case (3 x y ys)
  then show ?case
    by (simp add: split_on_append_delim)
qed

lemma span_split_chunks [simp]: "map span (split_chunks md ss) = map span ss"
  by (simp add: split_chunks_def span_def)

lemma unit_ok_whole:
  assumes "lo \<le> hi" and "hi = lo + length ls - 1"
  shows "unit_ok lo hi ls [(lo, hi)]"
  using assms by (auto simp: unit_ok_def inside_def covered_def)

lemma unit_ok_nothing:
  "list_all blank ls \<Longrightarrow> unit_ok lo hi ls []"
  by (auto simp: unit_ok_def list_all_length)

lemma processGapContent_unit_ok:
  assumes "processGapContent ix g sl el fp lang m t = Inr cs"
    and "el = sl + length (split_on CHR ''\<newline>'' g) - 1"
  shows "unit_ok sl el (split_on CHR ''\<newline>'' g) (map span cs)"
  using assms(1)
proof (cases rule: processGapContent_Inr)
  case (whole n)
  have "0 < length (split_on CHR ''\<newline>'' g)"
    using split_on_nonempty[of "CHR ''\<newline>''" g] by simp
  with assms(2) have "sl \<le> el"
    by linarith
  with whole assms(2) show ?thesis
    by (simp add: span_def unit_ok_whole)
next
  case (parts n ss)
  from splitCode_unit_ok[OF parts(3)] parts(4) assms(2) show ?thesis
    by simp
qed

lemma processASTNodeContent_unit_ok:
  assumes "processASTNodeContent ix node fp lang m t = Inr cs" and "wf_node nlines node"
  shows "unit_ok (nodeStart node) (nodeEnd node) (node_lines node) (map span cs)"
  using assms(1)
proof (cases rule: processASTNodeContent_Inr)
  case (whole n)
  with assms(2) show ?thesis
    by (simp add: span_def unit_ok_whole wf_node_def nodeStart_def nodeEnd_def)
next
  case (parts n ss)
  from assms(2) have "nodeEnd node = nodeStart node + length (node_lines node) - 1"
    by (simp add: wf_node_def nodeStart_def nodeEnd_def)
  with splitCode_unit_ok[OF parts(3)] parts(4) show ?thesis
    by (simp add: node_lines_def nodeStart_def)
qed

lemma file_inv_weaken:
  "file_inv P cursor sp \<Longrightarrow> (\<And>k. Q k \<Longrightarrow> P k) \<Longrightarrow> file_inv Q cursor sp"
  unfolding file_inv_def by blast

lemma file_inv_append_unit:
  assumes "file_inv P cursor sp" and "cursor \<le> lo" and "lo \<le> hi + 1"
    and "unit_ok lo hi ls sp'"
  shows "file_inv (\<lambda>k. P k \<or> (\<exists>i<length ls. k = lo + i \<and> \<not> blank (ls ! i))) (hi + 1) (sp @ sp')"
proof -
  from assms(4) have sw: "sorted_wrt before sp'" and ins: "\<forall>a \<in> set sp'. inside lo hi a"
    and cov: "\<forall>i<length ls. \<not> blank (ls ! i) \<longrightarrow> covered sp' (lo + i)"
    by (auto simp: unit_ok_def list_all_iff)
  from assms(1) have old: "\<forall>a \<in> set sp. 1 \<le> fst a \<and> fst a \<le> snd a \<and> snd a < cursor"
    and sw0: "sorted_wrt before sp" and c1: "1 \<le> cursor"
    and cov0: "\<forall>k. P k \<longrightarrow> covered sp k"
    by (auto simp: file_inv_def)
  have cross: "before a b" if "a \<in> set sp" and "b \<in> set sp'" for a b
  proof -
    from old that(1) have "snd a < cursor" by blast
    moreover from ins that(2) have "lo \<le> fst b" by (simp add: inside_def)
    ultimately show ?thesis
      using assms(2) by (simp add: before_def)
  qed
  have 1: "sorted_wrt before (sp @ sp')"
    using sw sw0 cross by (simp add: sorted_wrt_append)
  have 2: "\<forall>a \<in> set (sp @ sp'). 1 \<le> fst a \<and> fst a \<le> snd a \<and> snd a < hi + 1"
    using old ins c1 assms(2,3) by (fastforce simp: inside_def)
  have 3: "\<forall>k. P k \<or> (\<exists>i<length ls. k = lo + i \<and> \<not> blank (ls ! i)) \<longrightarrow> covered (sp @ sp') k"
    using cov cov0 by (auto simp: covered_append)
  from 1 2 3 show ?thesis
    unfolding file_inv_def by simp
qed


lemma length_slice: "e \<le> length xs \<Longrightarrow> length (slice b e xs) = e - b"
  by (simp add: slice_def)

lemma nth_slice: "e \<le> length xs \<Longrightarrow> i < e - b \<Longrightarrow> slice b e xs ! i = xs ! (b + i)"
  by (simp add: slice_def)

lemma set_slice: "set (slice b e xs) \<subseteq> set xs"
  unfolding slice_def by (meson set_drop_subset set_take_subset subset_trans)

lemma gap_unit_ok:
  assumes nonl: "\<forall>l \<in> set L. CHR ''\<newline>'' \<notin> set l"
    and c1: "1 \<le> cursor" and cs: "cursor \<le> nodeStart node" and sl: "nodeStart node - 1 \<le> length L"
    and g: "if cursor < row (startPosition node) + 1 \<and> trim (gapBefore L cursor node) \<noteq> []
            then processGapContent ix (gapBefore L cursor node) cursor (row (startPosition node))
                   fp lang m t = Inr gapChunks
            else gapChunks = []"
  shows "unit_ok cursor (nodeStart node - 1) (slice (cursor - 1) (nodeStart node - 1) L)
           (map span gapChunks)"
proof -
  let ?S = "nodeStart node"
  let ?G = "slice (cursor - 1) (?S - 1) L"
  have gb: "gapBefore L cursor node = join ''\<newline>'' ?G"
    by (simp add: gapBefore_def nodeStart_def)
  have len: "length ?G = ?S - cursor"
    using length_slice[OF sl, of "cursor - 1"] c1 by simp
  show ?thesis
  proof (cases "cursor < ?S \<and> trim (gapBefore L cursor node) \<noteq> []")
    case True
    with g have p: "processGapContent ix (join ''\<newline>'' ?G) cursor (?S - 1) fp lang m t
        = Inr gapChunks"
      by (simp add: gb nodeStart_def)
    from True len have ne: "?G \<noteq> []"
      by auto
    have "\<forall>l \<in> set ?G. CHR ''\<newline>'' \<notin> set l"
      using nonl set_slice[of "cursor - 1" "?S - 1" L] by blast
    from split_on_join[OF ne this] have sp: "split_on CHR ''\<newline>'' (join ''\<newline>'' ?G) = ?G" .
    have "?S - 1 = cursor + length (split_on CHR ''\<newline>'' (join ''\<newline>'' ?G)) - 1"
      using True len sp by simp
    from processGapContent_unit_ok[OF p this] sp show ?thesis
      by simp
  next
    case False
    with g have e: "gapChunks = []"
      by (simp add: nodeStart_def)
    have "list_all blank ?G"
    proof (cases "cursor < ?S")
      case True
      with False have "blank (join ''\<newline>'' ?G)"
        by (simp add: gb trim_blank)
      then show ?thesis
        by (simp add: blank_join)
    next
      case False
      with len show ?thesis by simp
    qed
    with e show ?thesis
      by (simp add: unit_ok_nothing)
  qed
qed

lemma node_before_eq: "node_before = (\<lambda>a b. row (endPosition a) < row (startPosition b))"
  by (intro ext) (simp add: node_before_def)

lemma processFileWithCursor_loop_inv:
  assumes nonl: "\<forall>l \<in> set L. CHR ''\<newline>'' \<notin> set l"
  shows "processFileWithCursor_loop ix L fp lang m t ns acc cursor = Inr (acc', cursor')
    \<Longrightarrow> file_inv P cursor (map span acc)
    \<Longrightarrow> sorted_wrt node_before ns
    \<Longrightarrow> list_all (wf_node (length L)) ns
    \<Longrightarrow> \<forall>n \<in> set ns. cursor \<le> nodeStart n
    \<Longrightarrow> cursor \<le> length L + 1
    \<Longrightarrow> file_inv (\<lambda>k. P k \<or> required L ns cursor cursor' k) cursor' (map span acc')
        \<and> cursor \<le> cursor' \<and> cursor' \<le> length L + 1"
proof (induction ns arbitrary: acc cursor P)
  case Nil
  then have "acc' = acc" and "cursor' = cursor"
    by simp_all
  with Nil show ?case
    by (auto simp: required_def elim: file_inv_weaken)
next
  case (Cons node rest)
  let ?S = "nodeStart node" and ?E = "nodeEnd node"
  let ?G = "slice (cursor - 1) (?S - 1) L"
  let ?N = "node_lines node"
  note inv = Cons.prems(2)
  from inv have c1: "1 \<le> cursor"
    by (simp add: file_inv_def)
  from Cons.prems(5) have cs: "cursor \<le> ?S"
    by simp
  from Cons.prems(4) have wf: "wf_node (length L) node" and wfr: "list_all (wf_node (length L)) rest"
    by simp_all
  from wf have se: "?S \<le> ?E" and el: "?E \<le> length L"
    by (simp_all add: wf_node_def nodeStart_def nodeEnd_def)
  then have sl: "?S - 1 \<le> length L"
    by simp
  from Cons.prems(3) have seqr: "sorted_wrt node_before rest"
    and nxt: "\<forall>n \<in> set rest. ?E + 1 \<le> nodeStart n"
    by (auto simp: nodeStart_def nodeEnd_def node_before_eq)
  have len: "length ?G = ?S - cursor"
    using length_slice[OF sl, of "cursor - 1"] c1 by simp
  from Cons.prems(1) show ?case
  proof (cases rule: processFileWithCursor_loop_Cons)
    case (1 gapChunks nodeChunks)
    from gap_unit_ok[OF nonl c1 cs sl 1(1)]
    have ug: "unit_ok cursor (?S - 1) ?G (map span gapChunks)" .
    have "file_inv (\<lambda>k. P k \<or> (\<exists>i<length ?G. k = cursor + i \<and> \<not> blank (?G ! i)))
            (?S - 1 + 1) (map span acc @ map span gapChunks)"
      by (rule file_inv_append_unit[OF inv _ _ ug]) (use cs in simp_all)
    moreover have "?S - 1 + 1 = ?S"
      by (simp add: nodeStart_def)
    ultimately have i1: "file_inv (\<lambda>k. P k \<or> (\<exists>i<length ?G. k = cursor + i \<and> \<not> blank (?G ! i)))
            ?S (map span acc @ map span gapChunks)"
      by simp
    from processASTNodeContent_unit_ok[OF 1(2) wf]
    have un: "unit_ok ?S ?E ?N (map span nodeChunks)" .
    have i2: "file_inv (\<lambda>k. (P k \<or> (\<exists>i<length ?G. k = cursor + i \<and> \<not> blank (?G ! i)))
                          \<or> (\<exists>i<length ?N. k = ?S + i \<and> \<not> blank (?N ! i)))
            (?E + 1) (map span (acc @ gapChunks @ nodeChunks))"
      using file_inv_append_unit[OF i1 _ _ un] se by simp
    have r: "processFileWithCursor_loop ix L fp lang m t rest (acc @ gapChunks @ nodeChunks)
        (?E + 1) = Inr (acc', cursor')"
      using 1(3) by (simp add: nodeEnd_def)
    from Cons.IH[OF r i2 seqr wfr nxt] el
    have ih: "file_inv (\<lambda>k. ((P k \<or> (\<exists>i<length ?G. k = cursor + i \<and> \<not> blank (?G ! i)))
                          \<or> (\<exists>i<length ?N. k = ?S + i \<and> \<not> blank (?N ! i)))
                          \<or> required L rest (?E + 1) cursor' k) cursor' (map span acc')"
      and mono: "?E + 1 \<le> cursor'" and bnd: "cursor' \<le> length L + 1"
      by simp_all
    have "((P k \<or> (\<exists>i<length ?G. k = cursor + i \<and> \<not> blank (?G ! i)))
                          \<or> (\<exists>i<length ?N. k = ?S + i \<and> \<not> blank (?N ! i)))
                          \<or> required L rest (?E + 1) cursor' k"
      if "P k \<or> required L (node # rest) cursor cursor' k" for k
    proof -
      from that consider (p) "P k"
        | (nd) n i where "n \<in> set (node # rest)" "i < length (node_lines n)"
            "k = nodeStart n + i" "\<not> blank (node_lines n ! i)"
        | (gp) "cursor \<le> k" "k < cursor'" "\<not> blank (L ! (k - 1))"
            "\<forall>n \<in> set (node # rest). k < nodeStart n \<or> nodeEnd n < k"
        unfolding required_def by blast
      then show ?thesis
      proof cases
        case p
        then show ?thesis by blast
      next
        case (nd n i)
        show ?thesis
        proof (cases "n = node")
          case True
          with nd show ?thesis by blast
        next
          case False
          with nd have "n \<in> set rest" by simp
          with nd have "required L rest (?E + 1) cursor' k"
            unfolding required_def by blast
          then show ?thesis by blast
        qed
      next
        case gp
        from gp(4) have out: "k < ?S \<or> ?E < k" and outr: "\<forall>n \<in> set rest. k < nodeStart n \<or> nodeEnd n < k"
          by simp_all
        from out show ?thesis
        proof
          assume lt: "k < ?S"
          with gp(1) have i: "k - cursor < length ?G" and k: "k = cursor + (k - cursor)"
            using len by simp_all
          from i len have "?G ! (k - cursor) = L ! (cursor - 1 + (k - cursor))"
            using nth_slice[OF sl, of "k - cursor" "cursor - 1"] c1 by simp
          also have "cursor - 1 + (k - cursor) = k - 1"
            using gp(1) c1 by simp
          finally have "\<not> blank (?G ! (k - cursor))"
            using gp(3) by simp
          with i k show ?thesis by blast
        next
          assume "?E < k"
          with gp outr have "required L rest (?E + 1) cursor' k"
            unfolding required_def by simp
          then show ?thesis by blast
        qed
      qed
    qed
    from file_inv_weaken[OF ih this] mono bnd se cs show ?thesis
      by simp
  qed
qed


lemma before_sorted:
  assumes "sorted_wrt before sp" and "\<forall>a \<in> set sp. fst a \<le> snd a"
  shows "sorted (map fst sp)"
proof -
  from assms(1) have "sorted_wrt (\<lambda>a b. fst a \<le> fst b) sp"
    by (rule sorted_wrt_mono_rel[rotated]) (use assms(2) in \<open>auto simp: before_def\<close>)
  then show ?thesis
    by (simp add: sorted_map)
qed

lemma startLine_span: "map startLine cs = map fst (map span cs)"
  by (simp add: span_def)

lemma trailing_unit_ok:
  assumes nonl: "\<forall>l \<in> set L. CHR ''\<newline>'' \<notin> set l" and c1: "1 \<le> cursor"
    and g: "if cursor \<le> length L \<and> trim (join ''\<newline>'' (drop (cursor - 1) L)) \<noteq> []
            then processGapContent ix (join ''\<newline>'' (drop (cursor - 1) L)) cursor (length L)
                   fp lang m t = Inr trailing
            else trailing = []"
  shows "unit_ok cursor (length L) (drop (cursor - 1) L) (map span trailing)"
proof -
  let ?T = "drop (cursor - 1) L"
  show ?thesis
  proof (cases "cursor \<le> length L \<and> trim (join ''\<newline>'' ?T) \<noteq> []")
    case True
    with g have p: "processGapContent ix (join ''\<newline>'' ?T) cursor (length L) fp lang m t
        = Inr trailing"
      by simp
    from True c1 have "cursor - 1 < length L"
      by linarith
    then have ne: "?T \<noteq> []"
      by simp
    have "\<forall>l \<in> set ?T. CHR ''\<newline>'' \<notin> set l"
      using nonl set_drop_subset[of "cursor - 1" L] by blast
    from split_on_join[OF ne this] have sp: "split_on CHR ''\<newline>'' (join ''\<newline>'' ?T) = ?T" .
    have "length L = cursor + length (split_on CHR ''\<newline>'' (join ''\<newline>'' ?T)) - 1"
      using True c1 sp by simp
    from processGapContent_unit_ok[OF p this] sp show ?thesis
      by simp
  next
    case False
    with g have e: "trailing = []"
      by simp
    have "list_all blank ?T"
    proof (cases "cursor \<le> length L")
      case True
      with False have "blank (join ''\<newline>'' ?T)"
        by (simp add: trim_blank)
      then show ?thesis
        by (simp add: blank_join)
    next
      case False
      then show ?thesis by simp
    qed
    with e show ?thesis
      by (simp add: unit_ok_nothing)
  qed
qed

lemma processFileWithCursor_spans:
  assumes run: "processFileWithCursor ix fileContent astNodes fp lang m t = Inr cs"
    and seq: "sorted_wrt node_before (sortNodes astNodes)"
    and wf: "list_all (wf_node (length (split_on CHR ''\<newline>'' fileContent))) astNodes"
  shows "sorted_wrt before (map span cs) \<and>
         list_all (inside 1 (length (split_on CHR ''\<newline>'' fileContent))) (map span cs) \<and>
         (\<forall>k. required (split_on CHR ''\<newline>'' fileContent) astNodes 1
                 (length (split_on CHR ''\<newline>'' fileContent) + 1) k
               \<longrightarrow> covered (map span cs) k)"
  using run
proof (cases rule: processFileWithCursor_Inr)
  case (1 acc cursor trailing)
  let ?L = "split_on CHR ''\<newline>'' fileContent"
  let ?ns = "sortNodes astNodes"
  let ?T = "drop (cursor - 1) ?L"
  have nonl: "\<forall>l \<in> set ?L. CHR ''\<newline>'' \<notin> set l"
    by (rule split_on_no_delim)
  have sets: "set ?ns = set astNodes"
    by (simp add: sortNodes_def)
  from wf have wfs: "list_all (wf_node (length ?L)) ?ns"
    by (simp add: list_all_iff sets)
  have i0: "file_inv (\<lambda>k. False) 1 (map span ([]::FileChunk list))"
    by (simp add: file_inv_def)
  have st: "\<forall>n \<in> set ?ns. 1 \<le> nodeStart n"
    by (simp add: nodeStart_def)
  from processFileWithCursor_loop_inv[OF nonl 1(1) i0 seq wfs st]
  have inv: "file_inv (\<lambda>k. required ?L ?ns 1 cursor k) cursor (map span acc)"
    and c1: "1 \<le> cursor" and cb: "cursor \<le> length ?L + 1"
    by simp_all
  from trailing_unit_ok[OF nonl c1 1(2)]
  have ut: "unit_ok cursor (length ?L) ?T (map span trailing)" .
  from file_inv_append_unit[OF inv _ cb ut]
  have fin: "file_inv (\<lambda>k. required ?L ?ns 1 cursor k
                          \<or> (\<exists>i<length ?T. k = cursor + i \<and> \<not> blank (?T ! i)))
               (length ?L + 1) (map span (acc @ trailing))"
    by simp
  then have sw: "sorted_wrt before (map span (acc @ trailing))"
    and ins: "\<forall>a \<in> set (map span (acc @ trailing)). 1 \<le> fst a \<and> fst a \<le> snd a \<and> snd a < length ?L + 1"
    and cov: "\<forall>k. required ?L ?ns 1 cursor k
                          \<or> (\<exists>i<length ?T. k = cursor + i \<and> \<not> blank (?T ! i))
                \<longrightarrow> covered (map span (acc @ trailing)) k"
    unfolding file_inv_def by blast+
  from before_sorted[OF sw] ins have "sorted (map startLine (acc @ trailing))"
    unfolding startLine_span by auto
  then have id: "cs = acc @ trailing"
    unfolding 1(3) by (rule sort_key_id_if_sorted)
  have c: "covered (map span (acc @ trailing)) k"
    if "required ?L astNodes 1 (length ?L + 1) k" for k
  proof -
    from that consider (nd) "required ?L ?ns 1 cursor k"
      | (gp) "1 \<le> k" "k < length ?L + 1" "\<not> blank (?L ! (k - 1))" "\<not> k < cursor"
      unfolding required_def sets by blast
    then show ?thesis
    proof cases
      case nd
      with cov show ?thesis by blast
    next
      case gp
      then have i: "k - cursor < length ?T" and k: "k = cursor + (k - cursor)"
        using c1 by simp_all
      have "?T ! (k - cursor) = ?L ! (cursor - 1 + (k - cursor))"
        using gp c1 by simp
      also have "cursor - 1 + (k - cursor) = k - 1"
        using gp c1 by simp
      finally have "\<not> blank (?T ! (k - cursor))"
        using gp(3) by simp
      with i k cov show ?thesis by blast
    qed
  qed
  have "inside 1 (length ?L) a" if "a \<in> set (map span (acc @ trailing))" for a
  proof -
    from ins that have "1 \<le> fst a \<and> fst a \<le> snd a \<and> snd a < length ?L + 1"
      by blast
    then show ?thesis
      by (simp add: inside_def)
  qed
  then have "list_all (inside 1 (length ?L)) (map span (acc @ trailing))"
    unfolding list_all_iff by blast
  with sw c show ?thesis
    unfolding id by blast
qed

text \<open>When the tokenizer never throws and the budget is positive, a result is returned.\<close>

lemma splitLongLine_total: "never_throws t \<Longrightarrow> \<exists>frs. splitLongLine line ln m t = Inr frs"
  unfolding splitLongLine_def by (rule splitLongLine_loop_total)

lemma splitCode_loop_total:
  assumes "never_throws t"
  shows "\<exists>r. splitCode_loop t m ls ln splits cc csl ctc = Inr r"
proof (induction ls arbitrary: ln splits cc csl ctc)
  case Nil
  then show ?case by simp
next
  case (Cons line rest)
  obtain n where n: "countTokens t line = Inr n"
    using countTokens_total[OF assms] by blast
  obtain frs where frs: "splitLongLine line ln m t = Inr frs"
    using splitLongLine_total[OF assms] by blast
  from n frs Cons.IH show ?case
    by (simp add: Let_def)
qed

lemma splitCode_total:
  assumes "never_throws t" and "0 < m"
  shows "\<exists>ss. splitCode \<lparr>sourceCode = src, so_startLine = start, so_maxTokens = m, tokenizer = t\<rparr>
           = Inr ss"
proof -
  obtain r where "splitCode_loop t m (split_on CHR ''\<newline>'' src) start [] [] start 0 = Inr r"
    using splitCode_loop_total[OF assms(1)] by blast
  with assms(2) show ?thesis
    by (cases r) (simp add: splitCode_def)
qed

lemma processGapContent_total:
  assumes "never_throws t" and "0 < m"
  shows "\<exists>cs. processGapContent ix g sl el fp lang m t = Inr cs"
proof -
  obtain n where "countTokens t g = Inr n"
    using countTokens_total[OF assms(1)] by blast
  moreover obtain ss where "splitCode \<lparr>sourceCode = g, so_startLine = sl, so_maxTokens = m,
      tokenizer = t\<rparr> = Inr ss"
    using splitCode_total[OF assms] by blast
  ultimately show ?thesis
    by (simp add: processGapContent_def)
qed

lemma processASTNodeContent_total:
  assumes "never_throws t" and "0 < m"
  shows "\<exists>cs. processASTNodeContent ix node fp lang m t = Inr cs"
proof -
  obtain n where "countTokens t (node_text node) = Inr n"
    using countTokens_total[OF assms(1)] by blast
  moreover obtain ss where "splitCode \<lparr>sourceCode = node_text node,
      so_startLine = row (startPosition node) + 1, so_maxTokens = m, tokenizer = t\<rparr> = Inr ss"
    using splitCode_total[OF assms] by blast
  ultimately show ?thesis
    by (simp add: processASTNodeContent_def Let_def)
qed

lemma processFileWithCursor_loop_total:
  assumes "never_throws t" and "0 < m"
  shows "\<exists>r. processFileWithCursor_loop ix L fp lang m t ns acc cursor = Inr r"
proof (induction ns arbitrary: acc cursor)
  case Nil
  then show ?case by simp
next
  case (Cons node rest)
  obtain nc where nc: "processASTNodeContent ix node fp lang m t = Inr nc"
    using processASTNodeContent_total[OF assms] by blast
  obtain gc where gc: "processGapContent ix
      (join ''\<newline>'' (slice (cursor - 1) (row (startPosition node) + 1 - 1) L)) cursor
      (row (startPosition node) + 1 - 1) fp lang m t = Inr gc"
    using processGapContent_total[OF assms] by blast
  from nc gc Cons.IH show ?case
    by (simp add: Let_def)
qed

lemma processFileWithCursor_total:
  assumes "never_throws t" and "0 < m"
  shows "\<exists>cs. processFileWithCursor ix fileContent astNodes fp lang m t = Inr cs"
proof -
  obtain r where r: "processFileWithCursor_loop ix (split_on CHR ''\<newline>'' fileContent) fp lang m t
      (sortNodes astNodes) [] 1 = Inr r"
    using processFileWithCursor_loop_total[OF assms] by blast
  obtain acc cursor where rc: "r = (acc, cursor)"
    by (cases r) auto
  obtain tc where "processGapContent ix
      (join ''\<newline>'' (drop (cursor - 1) (split_on CHR ''\<newline>'' fileContent))) cursor
      (length (split_on CHR ''\<newline>'' fileContent)) fp lang m t = Inr tc"
    using processGapContent_total[OF assms] by blast
  with r rc show ?thesis
    by (simp add: processFileWithCursor_def Let_def)
qed

text \<open>The coverage of the lines holds for nested and overlapping nodes too.\<close>

lemma inside_mono: "inside lo hi a \<Longrightarrow> lo' \<le> lo \<Longrightarrow> hi \<le> hi' \<Longrightarrow> inside lo' hi' a"
  by (simp add: inside_def)

lemma covered_set: "set sp = set sp' \<Longrightarrow> covered sp k = covered sp' k"
  by (simp add: covered_def list_ex_iff)

lemma processFileWithCursor_loop_cov:
  assumes nonl: "\<forall>l \<in> set L. CHR ''\<newline>'' \<notin> set l"
  shows "processFileWithCursor_loop ix L fp lang m t ns acc cursor = Inr (acc', cursor')
    \<Longrightarrow> 1 \<le> cursor \<Longrightarrow> cursor \<le> length L + 1
    \<Longrightarrow> list_all (wf_node (length L)) ns
    \<Longrightarrow> set ns \<subseteq> A
    \<Longrightarrow> list_all (inside 1 (length L)) (map span acc)
    \<Longrightarrow> \<forall>k. 1 \<le> k \<and> k < cursor \<and> \<not> blank (L ! (k - 1))
              \<and> (\<forall>n \<in> A. k < nodeStart n \<or> nodeEnd n < k) \<longrightarrow> covered (map span acc) k
    \<Longrightarrow> 1 \<le> cursor' \<and> cursor' \<le> length L + 1
        \<and> list_all (inside 1 (length L)) (map span acc')
        \<and> (\<forall>k. covered (map span acc) k \<longrightarrow> covered (map span acc') k)
        \<and> (\<forall>k. 1 \<le> k \<and> k < cursor' \<and> \<not> blank (L ! (k - 1))
              \<and> (\<forall>n \<in> A. k < nodeStart n \<or> nodeEnd n < k) \<longrightarrow> covered (map span acc') k)
        \<and> (\<forall>n \<in> set ns. \<forall>i<length (node_lines n). \<not> blank (node_lines n ! i)
              \<longrightarrow> covered (map span acc') (nodeStart n + i))"
proof (induction ns arbitrary: acc cursor)
  case Nil
  then show ?case by simp
next
  case (Cons node rest)
  let ?S = "nodeStart node" and ?E = "nodeEnd node"
  let ?G = "slice (cursor - 1) (?S - 1) L"
  let ?N = "node_lines node"
  note c1 = Cons.prems(2) and cb = Cons.prems(3)
  from Cons.prems(4) have wf: "wf_node (length L) node" and wfr: "list_all (wf_node (length L)) rest"
    by simp_all
  from wf have se: "?S \<le> ?E" and el: "?E \<le> length L" and s1: "1 \<le> ?S"
    by (simp_all add: wf_node_def nodeStart_def nodeEnd_def)
  then have sl: "?S - 1 \<le> length L"
    by simp
  from Cons.prems(5) have nA: "node \<in> A" and rA: "set rest \<subseteq> A"
    by simp_all
  from Cons.prems(1) show ?case
  proof (cases rule: processFileWithCursor_loop_Cons)
    case (1 gapChunks nodeChunks)
    have gap: "list_all (inside 1 (length L)) (map span gapChunks) \<and>
               (\<forall>k. cursor \<le> k \<and> k < ?S \<and> \<not> blank (L ! (k - 1))
                  \<longrightarrow> covered (map span gapChunks) k)"
    proof (cases "cursor \<le> ?S")
      case False
      with 1(1) show ?thesis
        by (auto simp: nodeStart_def)
    next
      case True
      from gap_unit_ok[OF nonl c1 True sl 1(1)]
      have ug: "unit_ok cursor (?S - 1) ?G (map span gapChunks)" .
      have len: "length ?G = ?S - cursor"
        using length_slice[OF sl, of "cursor - 1"] c1 by simp
      from ug have ins: "\<forall>a \<in> set (map span gapChunks). inside cursor (?S - 1) a"
        and cov: "\<forall>i<length ?G. \<not> blank (?G ! i) \<longrightarrow> covered (map span gapChunks) (cursor + i)"
        unfolding unit_ok_def list_all_iff by blast+
      have i: "list_all (inside 1 (length L)) (map span gapChunks)"
        unfolding list_all_iff using ins inside_mono[OF _ c1 sl] by blast
      have "covered (map span gapChunks) k"
        if k: "cursor \<le> k" "k < ?S" "\<not> blank (L ! (k - 1))" for k
      proof -
        from k have il: "k - cursor < (?S - 1) - (cursor - 1)"
          using c1 by simp
        from nth_slice[OF sl il] have "?G ! (k - cursor) = L ! (cursor - 1 + (k - cursor))" .
        also have "cursor - 1 + (k - cursor) = k - 1"
          using k c1 by simp
        finally have "\<not> blank (?G ! (k - cursor))"
          using k(3) by simp
        moreover from k have "k - cursor < length ?G"
          unfolding len by simp
        ultimately have "covered (map span gapChunks) (cursor + (k - cursor))"
          using cov by blast
        with k show ?thesis by simp
      qed
      with i show ?thesis by blast
    qed
    from processASTNodeContent_unit_ok[OF 1(2) wf]
    have un: "unit_ok ?S ?E ?N (map span nodeChunks)" .
    then have nins: "\<forall>a \<in> set (map span nodeChunks). inside ?S ?E a"
      and ncov: "\<forall>i<length ?N. \<not> blank (?N ! i) \<longrightarrow> covered (map span nodeChunks) (?S + i)"
      unfolding unit_ok_def list_all_iff by blast+
    have ni: "list_all (inside 1 (length L)) (map span nodeChunks)"
      unfolding list_all_iff using nins inside_mono[OF _ s1 el] by blast
    let ?acc = "acc @ gapChunks @ nodeChunks"
    have e1: "row (endPosition node) + 2 = ?E + 1"
      by (simp add: nodeEnd_def)
    have p2: "1 \<le> ?E + 1" and p3: "?E + 1 \<le> length L + 1"
      using el by simp_all
    have p6: "list_all (inside 1 (length L)) (map span ?acc)"
      using Cons.prems(6) gap ni by simp
    have p7: "\<forall>k. 1 \<le> k \<and> k < ?E + 1 \<and> \<not> blank (L ! (k - 1))
              \<and> (\<forall>n \<in> A. k < nodeStart n \<or> nodeEnd n < k) \<longrightarrow> covered (map span ?acc) k"
    proof (intro allI impI)
      fix k
      assume k: "1 \<le> k \<and> k < ?E + 1 \<and> \<not> blank (L ! (k - 1))
              \<and> (\<forall>n \<in> A. k < nodeStart n \<or> nodeEnd n < k)"
      with nA have out: "k < ?S \<or> ?E < k"
        by blast
      with k have ks: "k < ?S"
        by simp
      show "covered (map span ?acc) k"
      proof (cases "k < cursor")
        case True
        with k Cons.prems(7) have "covered (map span acc) k"
          by blast
        then show ?thesis
          by (simp add: covered_append)
      next
        case False
        with ks k gap have "covered (map span gapChunks) k"
          by simp
        then show ?thesis
          by (simp add: covered_append)
      qed
    qed
    from 1(3) have run: "processFileWithCursor_loop ix L fp lang m t rest ?acc (?E + 1)
        = Inr (acc', cursor')"
      unfolding e1 .
    from Cons.IH[OF run p2 p3 wfr rA p6 p7]
    have r1: "1 \<le> cursor' \<and> cursor' \<le> length L + 1"
      and r2: "list_all (inside 1 (length L)) (map span acc')"
      and r3: "\<forall>k. covered (map span ?acc) k \<longrightarrow> covered (map span acc') k"
      and r4: "\<forall>k. 1 \<le> k \<and> k < cursor' \<and> \<not> blank (L ! (k - 1))
              \<and> (\<forall>n \<in> A. k < nodeStart n \<or> nodeEnd n < k) \<longrightarrow> covered (map span acc') k"
      and r5: "\<forall>n \<in> set rest. \<forall>i<length (node_lines n). \<not> blank (node_lines n ! i)
              \<longrightarrow> covered (map span acc') (nodeStart n + i)"
      by blast+
    from r3 have m: "\<forall>k. covered (map span acc) k \<longrightarrow> covered (map span acc') k"
      by (simp add: covered_append)
    from r3 ncov have "\<forall>i<length ?N. \<not> blank (?N ! i) \<longrightarrow> covered (map span acc') (?S + i)"
      by (simp add: covered_append)
    with r5 have n: "\<forall>n \<in> set (node # rest). \<forall>i<length (node_lines n). \<not> blank (node_lines n ! i)
              \<longrightarrow> covered (map span acc') (nodeStart n + i)"
      by simp
    from r1 r2 m r4 n show ?thesis
      by blast
  qed
qed

lemma processFileWithCursor_covers:
  assumes run: "processFileWithCursor ix fileContent astNodes fp lang m t = Inr cs"
    and wf: "list_all (wf_node (length (split_on CHR ''\<newline>'' fileContent))) astNodes"
  shows "list_all (inside 1 (length (split_on CHR ''\<newline>'' fileContent))) (map span cs) \<and>
         (\<forall>k. required (split_on CHR ''\<newline>'' fileContent) astNodes 1
                 (length (split_on CHR ''\<newline>'' fileContent) + 1) k
               \<longrightarrow> covered (map span cs) k)"
  using run
proof (cases rule: processFileWithCursor_Inr)
  case (1 acc cursor trailing)
  let ?L = "split_on CHR ''\<newline>'' fileContent"
  let ?ns = "sortNodes astNodes"
  let ?T = "drop (cursor - 1) ?L"
  have nonl: "\<forall>l \<in> set ?L. CHR ''\<newline>'' \<notin> set l"
    by (rule split_on_no_delim)
  have sets: "set ?ns = set astNodes"
    by (simp add: sortNodes_def)
  from wf have wfs: "list_all (wf_node (length ?L)) ?ns"
    by (simp add: list_all_iff sets)
  have sub: "set ?ns \<subseteq> set astNodes"
    by (simp add: sets)
  have "1 \<le> cursor \<and> cursor \<le> length ?L + 1
        \<and> list_all (inside 1 (length ?L)) (map span acc)
        \<and> (\<forall>k. covered (map span ([]::FileChunk list)) k \<longrightarrow> covered (map span acc) k)
        \<and> (\<forall>k. 1 \<le> k \<and> k < cursor \<and> \<not> blank (?L ! (k - 1))
              \<and> (\<forall>n \<in> set astNodes. k < nodeStart n \<or> nodeEnd n < k) \<longrightarrow> covered (map span acc) k)
        \<and> (\<forall>n \<in> set ?ns. \<forall>i<length (node_lines n). \<not> blank (node_lines n ! i)
              \<longrightarrow> covered (map span acc) (nodeStart n + i))"
    by (rule processFileWithCursor_loop_cov[OF nonl 1(1) _ _ wfs sub]) simp_all
  then have c1: "1 \<le> cursor" and cb: "cursor \<le> length ?L + 1"
    and ia: "list_all (inside 1 (length ?L)) (map span acc)"
    and og: "\<forall>k. 1 \<le> k \<and> k < cursor \<and> \<not> blank (?L ! (k - 1))
              \<and> (\<forall>n \<in> set astNodes. k < nodeStart n \<or> nodeEnd n < k) \<longrightarrow> covered (map span acc) k"
    and on: "\<forall>n \<in> set astNodes. \<forall>i<length (node_lines n). \<not> blank (node_lines n ! i)
              \<longrightarrow> covered (map span acc) (nodeStart n + i)"
    unfolding sets by blast+
  from trailing_unit_ok[OF nonl c1 1(2)]
  have ut: "unit_ok cursor (length ?L) ?T (map span trailing)" .
  then have tins: "\<forall>a \<in> set (map span trailing). inside cursor (length ?L) a"
    and tcov: "\<forall>i<length ?T. \<not> blank (?T ! i) \<longrightarrow> covered (map span trailing) (cursor + i)"
    unfolding unit_ok_def list_all_iff by blast+
  have it: "list_all (inside 1 (length ?L)) (map span trailing)"
    unfolding list_all_iff using tins inside_mono[OF _ c1 order_refl] by blast
  have st: "set (map span cs) = set (map span (acc @ trailing))"
    unfolding 1(3) by (simp add: image_Un)
  have c: "covered (map span (acc @ trailing)) k"
    if "required ?L astNodes 1 (length ?L + 1) k" for k
  proof -
    from that consider (nd) n i where "n \<in> set astNodes" "i < length (node_lines n)"
        "k = nodeStart n + i" "\<not> blank (node_lines n ! i)"
      | (lo) "1 \<le> k" "k < cursor" "\<not> blank (?L ! (k - 1))"
          "\<forall>n \<in> set astNodes. k < nodeStart n \<or> nodeEnd n < k"
      | (gp) "1 \<le> k" "k < length ?L + 1" "\<not> blank (?L ! (k - 1))" "\<not> k < cursor"
      unfolding required_def by blast
    then show ?thesis
    proof cases
      case nd
      with on show ?thesis
        by (simp add: covered_append)
    next
      case lo
      with og show ?thesis
        by (simp add: covered_append)
    next
      case gp
      then have i: "k - cursor < length ?T" and k: "k = cursor + (k - cursor)"
        using c1 by simp_all
      have "?T ! (k - cursor) = ?L ! (cursor - 1 + (k - cursor))"
        using gp c1 by simp
      also have "cursor - 1 + (k - cursor) = k - 1"
        using gp c1 by simp
      finally have "\<not> blank (?T ! (k - cursor))"
        using gp(3) by simp
      with i tcov have "covered (map span trailing) (cursor + (k - cursor))"
        by blast
      with k show ?thesis
        by (simp add: covered_append)
    qed
  qed
  from ia it have "list_all (inside 1 (length ?L)) (map span (acc @ trailing))"
    by simp
  then have "list_all (inside 1 (length ?L)) (map span cs)"
    unfolding list_all_iff st .
  moreover have "covered (map span cs) k" if "required ?L astNodes 1 (length ?L + 1) k" for k
    using c[OF that] covered_set[OF st] by simp
  ultimately show ?thesis
    by blast
qed


lemma file_spans_Some:
  "file_spans ix fileContent astNodes fp lang m t = Some sp \<Longrightarrow>
   \<exists>cs. processFileWithCursor ix fileContent astNodes fp lang m t = Inr cs \<and> map span cs = sp"
  by (auto simp: file_spans_def split: sum.splits)

lemmas span_defs = file_spans_def span_def exampleNode_def no_scan_def before_def inside_def
  covered_def wf_node_def node_lines_def node_before_def

text \<open>
  C1 (as amended).  Let every collected node fit the file: it ends inside the file, not
  before it starts, and its text has one line for every line of its range.  When
  \<open>processFileWithCursor\<close> returns, every span of its chunks lies between line 1 and the
  last line of the file, and every line that needs a chunk is in a span: every line of
  the text of a node and every line of the file outside the nodes that is not
  whitespace-only; this holds for nested and overlapping nodes too.  When moreover the
  nodes follow one another, each ending on a row above the row where the next one starts,
  the spans in the order returned are pairwise in order: a span ends before a later one
  starts, or both are the same single line (fragments of one over-long line).
  \<open>processFileWithCursor\<close> returns whenever the tokenizer never throws and the budget is
  positive.
\<close>

theorem processFileWithCursor_coverage:
  assumes wf: "list_all (wf_node (length (split_on CHR ''\<newline>'' fileContent))) astNodes"
  shows "(never_throws t \<and> 0 < maxTokens \<longrightarrow>
            (\<exists>cs. processFileWithCursor ix fileContent astNodes fp lang maxTokens t = Inr cs)) \<and>
         (\<forall>cs. processFileWithCursor ix fileContent astNodes fp lang maxTokens t = Inr cs \<longrightarrow>
            list_all (inside 1 (length (split_on CHR ''\<newline>'' fileContent))) (map span cs) \<and>
            (\<forall>k. required (split_on CHR ''\<newline>'' fileContent) astNodes 1
                    (length (split_on CHR ''\<newline>'' fileContent) + 1) k
                  \<longrightarrow> covered (map span cs) k) \<and>
            (sorted_wrt node_before (sortNodes astNodes) \<longrightarrow> sorted_wrt before (map span cs)))"
proof (intro conjI impI allI)
  assume "never_throws t \<and> 0 < maxTokens"
  then show "\<exists>cs. processFileWithCursor ix fileContent astNodes fp lang maxTokens t = Inr cs"
    using processFileWithCursor_total[of t maxTokens] by blast
next
  fix cs
  assume run: "processFileWithCursor ix fileContent astNodes fp lang maxTokens t = Inr cs"
  from processFileWithCursor_covers[OF run wf]
  show "list_all (inside 1 (length (split_on CHR ''\<newline>'' fileContent))) (map span cs)"
    by simp
  {
    fix k
    assume "required (split_on CHR ''\<newline>'' fileContent) astNodes 1
              (length (split_on CHR ''\<newline>'' fileContent) + 1) k"
    with processFileWithCursor_covers[OF run wf]
    show "covered (map span cs) k"
      by blast
  }
  assume seq: "sorted_wrt node_before (sortNodes astNodes)"
  from processFileWithCursor_spans[OF run seq wf]
  show "sorted_wrt before (map span cs)"
    by simp
qed

theorem processFileWithCursor_coverage_witness:
  "list_all (wf_node (length (split_on CHR ''\<newline>''
       ''import x\<newline>\<newline>function f() {}\<newline>// end'')))
     [exampleNode ''function_declaration'' 2 2 ''function f() {}''] \<and>
   sorted_wrt node_before (sortNodes [exampleNode ''function_declaration'' 2 2 ''function f() {}'']) \<and>
   never_throws charTokenizer \<and>
   split_on CHR ''\<newline>'' ''import x\<newline>\<newline>function f() {}\<newline>// end''
     = [''import x'', [], ''function f() {}'', ''// end''] \<and>
   file_spans no_scan ''import x\<newline>\<newline>function f() {}\<newline>// end''
     [exampleNode ''function_declaration'' 2 2 ''function f() {}''] ''a.ts'' ''typescript'' 10
     charTokenizer = Some [(1, 2), (3, 3), (3, 3), (4, 4)] \<and>
   sorted_wrt before [(1, 2), (3, 3), (3, 3), (4, 4)] \<and>
   list_all (inside 1 4) [(1, 2), (3, 3), (3, 3), (4, 4)] \<and>
   covered [(1, 2), (3, 3), (3, 3), (4, 4)] 1 \<and>
   covered [(1, 2), (3, 3), (3, 3), (4, 4)] 3 \<and>
   covered [(1, 2), (3, 3), (3, 3), (4, 4)] 4 \<and>
   list_all (wf_node (length (split_on CHR ''\<newline>'' ''class A {\<newline>  m() {}\<newline>}'')))
     [exampleNode ''class_declaration'' 0 2 ''class A {\<newline>  m() {}\<newline>}'',
      exampleNode ''method_definition'' 1 1 ''m() {}''] \<and>
   file_spans no_scan ''class A {\<newline>  m() {}\<newline>}''
     [exampleNode ''class_declaration'' 0 2 ''class A {\<newline>  m() {}\<newline>}'',
      exampleNode ''method_definition'' 1 1 ''m() {}''] ''a.ts'' ''typescript'' 100
     charTokenizer = Some [(1, 3), (2, 2), (3, 3)] \<and>
   list_all (inside 1 3) [(1, 3), (2, 2), (3, 3)] \<and>
   covered [(1, 3), (2, 2), (3, 3)] 1 \<and>
   covered [(1, 3), (2, 2), (3, 3)] 2 \<and>
   covered [(1, 3), (2, 2), (3, 3)] 3"
proof -
  let ?c = "''import x\<newline>\<newline>function f() {}\<newline>// end''"
  let ?N = "exampleNode ''function_declaration'' 2 2 ''function f() {}''"
  have L: "split_on CHR ''\<newline>'' ?c = [''import x'', [], ''function f() {}'', ''// end'']"
    by (simp add: split_on_Cons_eval del: split_on.simps(2))
  have len: "length (split_on CHR ''\<newline>'' ?c) = 4"
    unfolding L by simp
  have NL: "node_lines ?N = [''function f() {}'']"
    by (simp add: node_lines_def exampleNode_def split_on_Cons_eval del: split_on.simps(2))
  have seq: "sorted_wrt node_before (sortNodes [?N])"
    by (simp add: sortNodes_def)
  have wf: "list_all (wf_node (length (split_on CHR ''\<newline>'' ?c))) [?N]"
    unfolding len by (simp add: wf_node_def NL) (simp add: exampleNode_def pos_def)
  have nt: "never_throws charTokenizer"
    by (rule never_throws_charTokenizer)
  have fs: "file_spans no_scan ?c [?N] ''a.ts'' ''typescript'' 10 charTokenizer
              = Some [(1, 2), (3, 3), (3, 3), (4, 4)]"
    by (simp add: env_defs eval_defs span_defs split_on_Cons_eval del: split_on.simps(2))
  from file_spans_Some[OF fs]
  obtain cs where run: "processFileWithCursor no_scan ?c [?N] ''a.ts'' ''typescript'' 10 charTokenizer = Inr cs"
    and sp: "map span cs = [(1, 2), (3, 3), (3, 3), (4, 4)]"
    by (elim exE conjE)
  have st: "nodeStart ?N = 3" "nodeEnd ?N = 3"
    by (simp_all add: nodeStart_def nodeEnd_def exampleNode_def pos_def)
  have r1: "required (split_on CHR ''\<newline>'' ?c) [?N] 1 (length (split_on CHR ''\<newline>'' ?c) + 1) 1"
    unfolding len unfolding L by (simp add: required_def st blank_def is_ws_def)
  have r3: "required (split_on CHR ''\<newline>'' ?c) [?N] 1 (length (split_on CHR ''\<newline>'' ?c) + 1) 3"
    unfolding len unfolding L by (simp add: required_def st NL blank_def is_ws_def)
  have r4: "required (split_on CHR ''\<newline>'' ?c) [?N] 1 (length (split_on CHR ''\<newline>'' ?c) + 1) 4"
    unfolding len unfolding L by (simp add: required_def st blank_def is_ws_def)
  note all = processFileWithCursor_coverage[OF wf, THEN conjunct2, THEN spec, THEN mp, OF run]
  note a = all[THEN conjunct2, THEN conjunct2, THEN mp, OF seq, unfolded sp]
  note b = all[THEN conjunct1, unfolded sp len]
  note cov = all[THEN conjunct2, THEN conjunct1, unfolded sp]
  note c1 = cov[THEN spec, THEN mp, OF r1]
    and c3 = cov[THEN spec, THEN mp, OF r3]
    and c4 = cov[THEN spec, THEN mp, OF r4]
  let ?d = "''class A {\<newline>  m() {}\<newline>}''"
  let ?C = "exampleNode ''class_declaration'' 0 2 ''class A {\<newline>  m() {}\<newline>}''"
  let ?M = "exampleNode ''method_definition'' 1 1 ''m() {}''"
  have L': "split_on CHR ''\<newline>'' ?d = [''class A {'', ''  m() {}'', ''}'']"
    by (simp add: split_on_Cons_eval del: split_on.simps(2))
  have len': "length (split_on CHR ''\<newline>'' ?d) = 3"
    unfolding L' by simp
  have NL': "node_lines ?C = [''class A {'', ''  m() {}'', ''}'']" "node_lines ?M = [''m() {}'']"
    by (simp_all add: node_lines_def exampleNode_def split_on_Cons_eval del: split_on.simps(2))
  have st': "nodeStart ?C = 1" "nodeEnd ?C = 3" "nodeStart ?M = 2" "nodeEnd ?M = 2"
    by (simp_all add: nodeStart_def nodeEnd_def exampleNode_def pos_def)
  have wC: "wf_node 3 ?C"
    unfolding wf_node_def NL' by (simp add: exampleNode_def pos_def)
  have wM: "wf_node 3 ?M"
    unfolding wf_node_def NL' by (simp add: exampleNode_def pos_def)
  have wf': "list_all (wf_node (length (split_on CHR ''\<newline>'' ?d))) [?C, ?M]"
    unfolding len' using wC wM by simp
  have fs': "file_spans no_scan ?d [?C, ?M] ''a.ts'' ''typescript'' 100 charTokenizer
              = Some [(1, 3), (2, 2), (3, 3)]"
    by (simp add: env_defs eval_defs span_defs split_on_Cons_eval del: split_on.simps(2))
  from file_spans_Some[OF fs']
  obtain cs' where run': "processFileWithCursor no_scan ?d [?C, ?M] ''a.ts'' ''typescript'' 100
      charTokenizer = Inr cs'"
    and sp': "map span cs' = [(1, 3), (2, 2), (3, 3)]"
    by (elim exE conjE)
  have q1: "required (split_on CHR ''\<newline>'' ?d) [?C, ?M] 1 (length (split_on CHR ''\<newline>'' ?d) + 1) 1"
    unfolding required_def
    by (intro disjI1 bexI[of _ ?C] exI[of _ 0]; (simp only: NL' st')?; simp add: blank_def is_ws_def)
  have q2: "required (split_on CHR ''\<newline>'' ?d) [?C, ?M] 1 (length (split_on CHR ''\<newline>'' ?d) + 1) 2"
    unfolding required_def
    by (intro disjI1 bexI[of _ ?M] exI[of _ 0]; (simp only: NL' st')?; simp add: blank_def is_ws_def)
  have q3: "required (split_on CHR ''\<newline>'' ?d) [?C, ?M] 1 (length (split_on CHR ''\<newline>'' ?d) + 1) 3"
    unfolding required_def
    by (intro disjI1 bexI[of _ ?C] exI[of _ 2]; (simp only: NL' st')?; simp add: blank_def is_ws_def)
  note all' = processFileWithCursor_coverage[OF wf', THEN conjunct2, THEN spec, THEN mp, OF run']
  note b' = all'[THEN conjunct1, unfolded sp' len']
  note cov' = all'[THEN conjunct2, THEN conjunct1, unfolded sp']
  note d1 = cov'[THEN spec, THEN mp, OF q1]
    and d2 = cov'[THEN spec, THEN mp, OF q2]
    and d3 = cov'[THEN spec, THEN mp, OF q3]
  from wf seq nt L fs a b c1 c3 c4 wf' fs' b' d1 d2 d3 show ?thesis
    by (simp only: simp_thms)
qed

text \<open>
  The claim C1 as stated fails.  The empty file has one line and no chunk, through
  \<open>chunkFile\<close> too.  In a file with a blank first line before a function, line 1 is
  in no chunk.  A method nested in a class is collected with the class, and the spans of
  the chunks are lines 1 to 3, line 2 and line 3, which overlap.
\<close>

theorem processFileWithCursor_lines_uncovered:
  "length (split_on CHR ''\<newline>'' []) = 1 \<and>
   file_spans no_scan [] [] ''a.ts'' ''typescript'' 100 charTokenizer = Some [] \<and>
   \<not> covered [] 1 \<and>
   chunkFile (exampleEnv [(''a.ts'', [])] programNode (encoding charTokenizer))
     \<lparr>co_filePath = ''a.ts'', co_maxTokens = 100, co_modelName = ''gpt-4''\<rparr> = Inr [] \<and>
   length (split_on CHR ''\<newline>'' '' \<newline>function f() {}'') = 2 \<and>
   list_all (wf_node 2) [exampleNode ''function_declaration'' 1 1 ''function f() {}''] \<and>
   file_spans no_scan '' \<newline>function f() {}''
     [exampleNode ''function_declaration'' 1 1 ''function f() {}''] ''a.ts'' ''typescript'' 100
     charTokenizer = Some [(2, 2)] \<and>
   \<not> covered [(2, 2)] 1 \<and>
   list_all (wf_node 3)
     [exampleNode ''class_declaration'' 0 2 ''class A {\<newline>  m() {}\<newline>}'',
      exampleNode ''method_definition'' 1 1 ''m() {}''] \<and>
   file_spans no_scan ''class A {\<newline>  m() {}\<newline>}''
     [exampleNode ''class_declaration'' 0 2 ''class A {\<newline>  m() {}\<newline>}'',
      exampleNode ''method_definition'' 1 1 ''m() {}''] ''a.ts'' ''typescript'' 100
     charTokenizer = Some [(1, 3), (2, 2), (3, 3)] \<and>
   \<not> sorted_wrt before [(1, 3), (2, 2), (3, 3)]"
  by (simp add: env_defs eval_defs span_defs split_on_Cons_eval del: split_on.simps(2))

end
